theory Spec2Isabelle
  imports Complex_Main "HOL-Library.Word"
begin

section \<open>Values at the binding surface\<close>

text \<open>
  The addon \<^verbatim>\<open>src/input.cpp\<close> wraps one RtMidi input handle for JavaScript. Its methods
  receive JavaScript values, call the driver and the thread-safe function of N-API, and
  either return a value or leave a pending JavaScript exception.
\<close>

type_synonym byte = "8 word"
type_synonym uint = "32 word"
type_synonym addr = nat

text \<open>
  A C++ \<^verbatim>\<open>double\<close>, which is also a JavaScript number. A finite double is a rational
  number, and is represented by its value; the three other cases are the infinities and
  NaN. No arithmetic is done on it apart from the conversion to \<^verbatim>\<open>unsigned int\<close>.
\<close>

datatype double = Finite rat | PosInf | NegInf | NaN

datatype jsvalue =
    JsUndefined
  | JsNull
  | JsBoolean bool
  | JsNumber double
  | JsString string
  | JsFunction nat
  | JsBuffer "byte list"

text \<open>The three exception classes the addon throws, each with its message.\<close>

datatype jsclass = Error | TypeError | RangeError

type_synonym js_exception = "jsclass \<times> string"

type_synonym js_result = "js_exception + jsvalue"

text \<open>
  Modelled from the spec: the conversion \<^verbatim>\<open>unsigned int portNumber = info[0].ToNumber()\<close>
  is \<^verbatim>\<open>Napi::Number::operator uint32_t\<close> of node-addon-api, whose source is not at hand.
  It is the ToUint32 of ECMAScript: a finite number is truncated toward zero and reduced
  modulo \<open>2 ^ 32\<close>; NaN and the infinities give 0.
\<close>

definition truncate_toward_zero :: "rat \<Rightarrow> int" where
  "truncate_toward_zero q = (if 0 \<le> q then \<lfloor>q\<rfloor> else \<lceil>q\<rceil>)"

fun Uint32Value :: "double \<Rightarrow> uint" where
  "Uint32Value (Finite q) = word_of_int (truncate_toward_zero q)"
| "Uint32Value PosInf = 0"
| "Uint32Value NegInf = 0"
| "Uint32Value NaN = 0"

text \<open>\<^verbatim>\<open>Napi::Number::New(env, n)\<close> of an \<^verbatim>\<open>unsigned int\<close>: every such value is a double.\<close>

definition Number_New_uint :: "uint \<Rightarrow> jsvalue" where
  "Number_New_uint n = JsNumber (Finite (of_nat (unat n)))"

section \<open>The device handle\<close>

text \<open>
  Modelled from the spec: the Device Handle is RtMidi's \<^verbatim>\<open>RtMidiIn\<close>, whose source is not at hand. The model keeps what the addon can observe of it: whether a port is open,
  whether a callback is registered, and the three filter flags. What the outside world
  decides (how many ports there are, their names, whether opening one fails) is the
  record \<open>driver_env\<close>, a parameter of every operation. A call that throws
  \<^verbatim>\<open>RtMidiError\<close> leaves the handle as it was.
\<close>

datatype RtMidiError = RtMidiError

record RtMidiIn =
  connected :: bool
  usingCallback :: bool
  ignoreFlags :: "bool \<times> bool \<times> bool"

record driver_env =
  portCount :: uint
  portName :: "uint \<Rightarrow> RtMidiError + string"
  openPortFails :: "uint \<Rightarrow> bool"
  openVirtualPortFails :: "string \<Rightarrow> bool"

definition new_RtMidiIn :: RtMidiIn where
  "new_RtMidiIn = \<lparr>connected = False, usingCallback = False, ignoreFlags = (True, True, True)\<rparr>"

definition drv_openPort :: "driver_env \<Rightarrow> uint \<Rightarrow> RtMidiIn \<Rightarrow> RtMidiError + RtMidiIn" where
  "drv_openPort env n h = (if openPortFails env n then Inl RtMidiError else Inr (h\<lparr>connected := True\<rparr>))"

definition drv_openVirtualPort :: "driver_env \<Rightarrow> string \<Rightarrow> RtMidiIn \<Rightarrow> RtMidiError + RtMidiIn" where
  "drv_openVirtualPort env nm h =
     (if openVirtualPortFails env nm then Inl RtMidiError else Inr (h\<lparr>connected := True\<rparr>))"

definition drv_closePort :: "RtMidiIn \<Rightarrow> RtMidiIn" where
  "drv_closePort h = h\<lparr>connected := False\<rparr>"

definition drv_setCallback :: "RtMidiIn \<Rightarrow> RtMidiIn" where
  "drv_setCallback h = h\<lparr>usingCallback := True\<rparr>"

definition drv_cancelCallback :: "RtMidiIn \<Rightarrow> RtMidiIn" where
  "drv_cancelCallback h = h\<lparr>usingCallback := False\<rparr>"

definition drv_ignoreTypes :: "bool \<Rightarrow> bool \<Rightarrow> bool \<Rightarrow> RtMidiIn \<Rightarrow> RtMidiIn" where
  "drv_ignoreTypes sysex timing sensing h = h\<lparr>ignoreFlags := (sysex, timing, sensing)\<rparr>"

section \<open>The wrapped object\<close>

text \<open>
  Every call the addon makes on a collaborator (the driver handle, the thread-safe
  function) is recorded, in program order, in the field \<open>trace\<close>. Claims about the order
  of arming, opening and tearing down are claims about this list.
\<close>

datatype event =
    DrvGetPortCount
  | DrvGetPortName uint
  | DrvIsPortOpen
  | DrvIgnoreTypes bool bool bool
  | TsfnNew
  | DrvSetCallback
  | DrvOpenPort uint
  | DrvOpenVirtualPort string
  | DrvClosePort
  | DrvCancelCallback
  | TsfnAbort
  | TsfnRelease
  | HandleReset

text \<open>
  Modelled from the spec: the type \<^verbatim>\<open>TSFN_t\<close> of the member \<^verbatim>\<open>handleMessage\<close> is
  node-addon-api's thread-safe function. The member is empty until \<^verbatim>\<open>TSFN_t::New\<close>, live
  after it, closed once \<^verbatim>\<open>Abort\<close> and \<^verbatim>\<open>Release\<close> have been called on it.
\<close>

datatype tsfn_handle = TsfnEmpty | TsfnLive | TsfnClosed

text \<open>
  Modelled from the spec: the class \<^verbatim>\<open>NodeMidiInput\<close> is declared in \<^verbatim>\<open>input.h\<close>, which is not at hand. Its members are the four that \<^verbatim>\<open>input.cpp\<close> uses: \<open>handle\<close> is the
  \<^verbatim>\<open>unique_ptr<RtMidiIn>\<close> (\<open>None\<close> is the null pointer), \<open>configured\<close> says whether the
  bridge is armed (false in a new object), \<open>emitMessage\<close> is the persistent reference to
  the consumer's function. The field \<open>trace\<close> is the record of calls described above.
\<close>

record NodeMidiInput =
  handle :: "RtMidiIn option"
  configured :: bool
  handleMessage :: tsfn_handle
  emitMessage :: "nat option"
  trace :: "event list"

definition record_event :: "event \<Rightarrow> NodeMidiInput \<Rightarrow> NodeMidiInput" where
  "record_event e s = s\<lparr>trace := trace s @ [e]\<rparr>"

text \<open>
  A call \<^verbatim>\<open>handle->f(...)\<close> that cannot throw: it is recorded and it updates the handle.
  Every caller has checked that the handle is not null.
\<close>

definition on_handle :: "event \<Rightarrow> (RtMidiIn \<Rightarrow> RtMidiIn) \<Rightarrow> NodeMidiInput \<Rightarrow> NodeMidiInput" where
  "on_handle e f s = record_event e (s\<lparr>handle := map_option f (handle s)\<rparr>)"

text \<open>
  A call \<^verbatim>\<open>handle->f(...)\<close> that may throw \<^verbatim>\<open>RtMidiError\<close>: it is recorded either way; the
  handle changes only when the call returns.
\<close>

definition try_on_handle ::
  "event \<Rightarrow> (RtMidiIn \<Rightarrow> RtMidiError + RtMidiIn) \<Rightarrow> NodeMidiInput \<Rightarrow> RtMidiError option \<times> NodeMidiInput" where
  "try_on_handle e f s =
     (case handle s of
        None \<Rightarrow> (None, record_event e s)
      | Some h \<Rightarrow>
          (case f h of
             Inl err \<Rightarrow> (Some err, record_event e s)
           | Inr h' \<Rightarrow> (None, record_event e (s\<lparr>handle := Some h'\<rparr>))))"

text \<open>
  \<^verbatim>\<open>NodeMidiInput::setupCallback\<close> (lines 66 to 86). \<^verbatim>\<open>TSFN_t::New\<close> is taken to succeed.
\<close>

definition setupCallback :: "NodeMidiInput \<Rightarrow> NodeMidiInput" where
  "setupCallback s =
     (if \<not> configured s then
        let s1 = s\<lparr>configured := True\<rparr>;
            s2 = record_event TsfnNew (s1\<lparr>handleMessage := TsfnLive\<rparr>)
        in on_handle DrvSetCallback drv_setCallback s2
      else s)"

text \<open>\<^verbatim>\<open>NodeMidiInput::closePortAndRemoveCallback\<close> (lines 88 to 103).\<close>

definition closePortAndRemoveCallback :: "NodeMidiInput \<Rightarrow> NodeMidiInput" where
  "closePortAndRemoveCallback s =
     (if handle s \<noteq> None then
        let s1 = on_handle DrvClosePort drv_closePort s in
        if configured s1 then
          let s2 = s1\<lparr>configured := False\<rparr>;
              s3 = on_handle DrvCancelCallback drv_cancelCallback s2;
              s4 = record_event TsfnAbort s3
          in record_event TsfnRelease (s4\<lparr>handleMessage := TsfnClosed\<rparr>)
        else s1
      else s)"

text \<open>The constructor (lines 36 to 58); \<open>drv_throws\<close> says whether \<^verbatim>\<open>new RtMidiIn()\<close> throws.\<close>

definition not_constructed :: NodeMidiInput where
  "not_constructed =
     \<lparr>handle = None, configured = False, handleMessage = TsfnEmpty, emitMessage = None, trace = []\<rparr>"

fun NodeMidiInput_new :: "bool \<Rightarrow> jsvalue list \<Rightarrow> js_exception option \<times> NodeMidiInput" where
  "NodeMidiInput_new drv_throws (JsFunction f # rest) =
     (if drv_throws then (Some (Error, ''Failed to initialise RtMidi''), not_constructed)
      else (None, not_constructed\<lparr>handle := Some new_RtMidiIn, emitMessage := Some f\<rparr>))"
| "NodeMidiInput_new drv_throws info = (Some (Error, ''Expected a callback''), not_constructed)"

text \<open>The destructor (lines 60 to 64).\<close>

definition NodeMidiInput_delete :: "NodeMidiInput \<Rightarrow> NodeMidiInput" where
  "NodeMidiInput_delete s = record_event HandleReset ((closePortAndRemoveCallback s)\<lparr>handle := None\<rparr>)"

section \<open>The public operations\<close>

definition NotInitialised :: js_exception where
  "NotInitialised = (Error, ''RtMidi not initialised'')"

text \<open>\<^verbatim>\<open>GetPortCount\<close> (lines 142 to 154).\<close>

definition GetPortCount :: "driver_env \<Rightarrow> jsvalue list \<Rightarrow> NodeMidiInput \<Rightarrow> js_result \<times> NodeMidiInput" where
  "GetPortCount env info s =
     (if handle s = None then (Inl NotInitialised, s)
      else (Inr (Number_New_uint (portCount env)), record_event DrvGetPortCount s))"

text \<open>\<^verbatim>\<open>GetPortName\<close> (lines 156 to 183).\<close>

fun GetPortName_checked :: "driver_env \<Rightarrow> jsvalue list \<Rightarrow> NodeMidiInput \<Rightarrow> js_result \<times> NodeMidiInput" where
  "GetPortName_checked env (JsNumber x # rest) s =
     (let portNumber = Uint32Value x;
          s1 = record_event (DrvGetPortName portNumber) s
      in case portName env portNumber of
           Inr nm \<Rightarrow> (Inr (JsString nm), s1)
         | Inl err \<Rightarrow> (Inl (TypeError, ''Internal RtMidi error''), s1))"
| "GetPortName_checked env info s = (Inl (TypeError, ''First argument must be an integer''), s)"

definition GetPortName :: "driver_env \<Rightarrow> jsvalue list \<Rightarrow> NodeMidiInput \<Rightarrow> js_result \<times> NodeMidiInput" where
  "GetPortName env info s =
     (if handle s = None then (Inl NotInitialised, s) else GetPortName_checked env info s)"

text \<open>\<^verbatim>\<open>OpenPort\<close> (lines 185 to 220).\<close>

fun OpenPort_checked :: "driver_env \<Rightarrow> jsvalue list \<Rightarrow> NodeMidiInput \<Rightarrow> js_result \<times> NodeMidiInput" where
  "OpenPort_checked env (JsNumber x # rest) s =
     (let portNumber = Uint32Value x;
          s1 = record_event DrvGetPortCount s
      in if portNumber \<ge> portCount env then (Inl (RangeError, ''Invalid MIDI port number''), s1)
         else
           let s2 = setupCallback s1;
               (thrown, s3) = try_on_handle (DrvOpenPort portNumber) (drv_openPort env portNumber) s2
           in case thrown of
                Some err \<Rightarrow> (Inl (Error, ''Internal RtMidi error''), s3)
              | None \<Rightarrow> (Inr JsNull, s3))"
| "OpenPort_checked env info s = (Inl (TypeError, ''First argument must be an integer''), s)"

definition OpenPort :: "driver_env \<Rightarrow> jsvalue list \<Rightarrow> NodeMidiInput \<Rightarrow> js_result \<times> NodeMidiInput" where
  "OpenPort env info s =
     (if handle s = None then (Inl NotInitialised, s) else OpenPort_checked env info s)"

text \<open>\<^verbatim>\<open>OpenVirtualPort\<close> (lines 222 to 252).\<close>

fun OpenVirtualPort_checked :: "driver_env \<Rightarrow> jsvalue list \<Rightarrow> NodeMidiInput \<Rightarrow> js_result \<times> NodeMidiInput" where
  "OpenVirtualPort_checked env (JsString nm # rest) s =
     (let s1 = setupCallback s;
          (thrown, s2) = try_on_handle (DrvOpenVirtualPort nm) (drv_openVirtualPort env nm) s1
      in case thrown of
           Some err \<Rightarrow> (Inl (Error, ''Internal RtMidi error''), s2)
         | None \<Rightarrow> (Inr JsNull, s2))"
| "OpenVirtualPort_checked env info s = (Inl (TypeError, ''First argument must be a string''), s)"

definition OpenVirtualPort :: "driver_env \<Rightarrow> jsvalue list \<Rightarrow> NodeMidiInput \<Rightarrow> js_result \<times> NodeMidiInput" where
  "OpenVirtualPort env info s =
     (if handle s = None then (Inl NotInitialised, s) else OpenVirtualPort_checked env info s)"

text \<open>\<^verbatim>\<open>ClosePort\<close> (lines 254 to 267).\<close>

definition ClosePort :: "driver_env \<Rightarrow> jsvalue list \<Rightarrow> NodeMidiInput \<Rightarrow> js_result \<times> NodeMidiInput" where
  "ClosePort env info s =
     (if handle s = None then (Inl NotInitialised, s)
      else (Inr JsNull, closePortAndRemoveCallback s))"

text \<open>\<^verbatim>\<open>Destroy\<close> (lines 269 to 283).\<close>

definition Destroy :: "driver_env \<Rightarrow> jsvalue list \<Rightarrow> NodeMidiInput \<Rightarrow> js_result \<times> NodeMidiInput" where
  "Destroy env info s =
     (if handle s = None then (Inr JsNull, s)
      else (Inr JsNull, record_event HandleReset ((closePortAndRemoveCallback s)\<lparr>handle := None\<rparr>)))"

text \<open>\<^verbatim>\<open>IsPortOpen\<close> (lines 285 to 297).\<close>

definition IsPortOpen :: "driver_env \<Rightarrow> jsvalue list \<Rightarrow> NodeMidiInput \<Rightarrow> js_result \<times> NodeMidiInput" where
  "IsPortOpen env info s =
     (case handle s of
        None \<Rightarrow> (Inl NotInitialised, s)
      | Some h \<Rightarrow> (Inr (JsBoolean (connected h)), record_event DrvIsPortOpen s))"

text \<open>\<^verbatim>\<open>IgnoreTypes\<close> (lines 299 to 322).\<close>

fun IgnoreTypes_checked :: "jsvalue list \<Rightarrow> NodeMidiInput \<Rightarrow> js_result \<times> NodeMidiInput" where
  "IgnoreTypes_checked [JsBoolean filter_sysex, JsBoolean filter_timing, JsBoolean filter_sensing] s =
     (Inr JsNull,
      on_handle (DrvIgnoreTypes filter_sysex filter_timing filter_sensing)
        (drv_ignoreTypes filter_sysex filter_timing filter_sensing) s)"
| "IgnoreTypes_checked info s = (Inl (TypeError, ''Arguments must be boolean''), s)"

definition IgnoreTypes :: "driver_env \<Rightarrow> jsvalue list \<Rightarrow> NodeMidiInput \<Rightarrow> js_result \<times> NodeMidiInput" where
  "IgnoreTypes env info s =
     (if handle s = None then (Inl NotInitialised, s) else IgnoreTypes_checked info s)"

section \<open>The cross-thread bridge\<close>

text \<open>
  Modelled from the spec: \<^verbatim>\<open>struct MidiMessage\<close> is declared in \<^verbatim>\<open>input.h\<close>, which is not at hand. Its fields are the three that \<^verbatim>\<open>input.cpp\<close> writes and reads: a pointer to
  the copied bytes, their number and the timestamp (the envelope of the spec). A pointer
  is an address or null (\<open>None\<close>).
\<close>

record MidiMessage =
  message :: "addr option"
  messageLength :: nat
  deltaTime :: double

text \<open>
  The memory and the queue the two threads share. \<open>heap_msgs\<close> and \<open>heap_bufs\<close> are the
  live allocations of \<^verbatim>\<open>new MidiMessage\<close> and \<^verbatim>\<open>new unsigned char[n]\<close>; \<open>next_addr\<close> is the
  next address the allocator hands out; \<open>freed\<close> records every \<^verbatim>\<open>delete\<close> and \<^verbatim>\<open>delete[]\<close>
  in order. \<open>calls\<close> records every invocation of the consumer's function with its two
  arguments. \<open>fault\<close> is set by an access to memory that is not live (a null or dangling
  pointer read, a second delete). \<open>tsfn_queue\<close> and \<open>tsfn_closing\<close> are the state of the
  thread-safe function: the pointers it holds, oldest first, and whether it was aborted.
\<close>

record bridge =
  heap_msgs :: "addr \<rightharpoonup> MidiMessage"
  heap_bufs :: "addr \<rightharpoonup> byte list"
  next_addr :: addr
  freed :: "addr list"
  tsfn_queue :: "addr list"
  tsfn_closing :: bool
  calls :: "(double \<times> byte list) list"
  fault :: bool

definition armed_bridge :: bridge where
  "armed_bridge =
     \<lparr>heap_msgs = Map.empty, heap_bufs = Map.empty, next_addr = 0, freed = [],
      tsfn_queue = [], tsfn_closing = False, calls = [], fault = False\<rparr>"

text \<open>
  Modelled from the spec: the queue of the thread-safe function belongs to N-API, whose source is not at hand. It is a FIFO queue of the pointers passed to
  \<^verbatim>\<open>NonBlockingCall\<close>, which never blocks; once the function is closing it takes no more.
\<close>

definition NonBlockingCall :: "addr \<Rightarrow> bridge \<Rightarrow> bridge" where
  "NonBlockingCall p w = (if tsfn_closing w then w else w\<lparr>tsfn_queue := tsfn_queue w @ [p]\<rparr>)"

text \<open>
  \<^verbatim>\<open>NodeMidiInput::Callback\<close> (lines 105 to 117), run by the driver's thread with the
  timestamp and the bytes of the driver's vector.
\<close>

definition Callback :: "double \<Rightarrow> byte list \<Rightarrow> bridge \<Rightarrow> bridge" where
  "Callback dt msg w =
     (let p = next_addr w;
          len = length msg;
          b = Suc p;
          m = \<lparr>message = Some b, messageLength = len, deltaTime = dt\<rparr>;
          w1 = w\<lparr>heap_msgs := (heap_msgs w)(p \<mapsto> m),
                 heap_bufs := (heap_bufs w)(b \<mapsto> take len msg),
                 next_addr := Suc b\<rparr>
      in NonBlockingCall p w1)"

definition delete_buf :: "addr \<Rightarrow> bridge \<Rightarrow> bridge" where
  "delete_buf b w =
     (if heap_bufs w b = None then w\<lparr>fault := True\<rparr>
      else w\<lparr>heap_bufs := (heap_bufs w)(b := None), freed := freed w @ [b]\<rparr>)"

definition delete_msg :: "addr \<Rightarrow> bridge \<Rightarrow> bridge" where
  "delete_msg p w =
     (if heap_msgs w p = None then w\<lparr>fault := True\<rparr>
      else w\<lparr>heap_msgs := (heap_msgs w)(p := None), freed := freed w @ [p]\<rparr>)"

text \<open>
  The first half of \<^verbatim>\<open>CallbackJs\<close> (lines 121 to 128): the two JavaScript values are
  built from the envelope and the consumer's function is called with them. The function
  is taken to return.
\<close>

definition call_handler :: "addr option \<Rightarrow> bridge \<Rightarrow> bridge" where
  "call_handler data w =
     (case data of
        None \<Rightarrow> w\<lparr>fault := True\<rparr>
      | Some p \<Rightarrow>
          (case heap_msgs w p of
             None \<Rightarrow> w\<lparr>fault := True\<rparr>
           | Some m \<Rightarrow>
               (case message m of
                  None \<Rightarrow> w\<lparr>fault := True\<rparr>
                | Some b \<Rightarrow>
                    (case heap_bufs w b of
                       None \<Rightarrow> w\<lparr>fault := True\<rparr>
                     | Some bytes \<Rightarrow>
                         w\<lparr>calls := calls w @ [(deltaTime m, take (messageLength m) bytes)]\<rparr>))))"

text \<open>
  \<^verbatim>\<open>NodeMidiInput::CallbackJs\<close> (lines 119 to 140). \<open>env\<close> and \<open>callback\<close> say whether the
  environment and the function are not null; \<open>data\<close> is the pointer to the envelope.
\<close>

definition CallbackJs :: "bool \<Rightarrow> bool \<Rightarrow> addr option \<Rightarrow> bridge \<Rightarrow> bridge" where
  "CallbackJs env callback data w =
     (let w1 = (if env \<and> callback then call_handler data w else w)
      in case data of
           None \<Rightarrow> w1
         | Some p \<Rightarrow>
             (case heap_msgs w1 p of
                None \<Rightarrow> w1\<lparr>fault := True\<rparr>
              | Some m \<Rightarrow>
                  let w2 = (case message m of None \<Rightarrow> w1 | Some b \<Rightarrow> delete_buf b w1)
                  in delete_msg p w2))"

text \<open>
  Modelled from the spec: one turn of the consumer's event loop, which is N-API's. The
  oldest queued pointer is taken and \<^verbatim>\<open>CallbackJs\<close> runs on it, with the environment and
  the function; when the thread-safe function is closing, what it still holds is handed
  to \<^verbatim>\<open>CallbackJs\<close> with a null environment and a null callback.
\<close>

definition dispatch :: "bridge \<Rightarrow> bridge" where
  "dispatch w =
     (case tsfn_queue w of
        [] \<Rightarrow> w
      | p # q \<Rightarrow> CallbackJs (\<not> tsfn_closing w) (\<not> tsfn_closing w) (Some p) (w\<lparr>tsfn_queue := q\<rparr>))"

text \<open>
  A schedule interleaves the two threads: the driver delivers a message, or the consumer's
  loop takes one turn.
\<close>

datatype action = Deliver double "byte list" | Dispatch

fun act :: "bridge \<Rightarrow> action \<Rightarrow> bridge" where
  "act w (Deliver dt msg) = Callback dt msg w"
| "act w Dispatch = dispatch w"

definition run_bridge :: "action list \<Rightarrow> bridge \<Rightarrow> bridge" where
  "run_bridge acts w = foldl act w acts"

text \<open>The consumer's loop runs until the queue is empty.\<close>

definition drain :: "bridge \<Rightarrow> bridge" where
  "drain w = (dispatch ^^ length (tsfn_queue w)) w"

text \<open>The messages a schedule delivers, in order.\<close>

fun deliveries :: "action list \<Rightarrow> (double \<times> byte list) list" where
  "deliveries [] = []"
| "deliveries (Deliver dt msg # acts) = (dt, msg) # deliveries acts"
| "deliveries (Dispatch # acts) = deliveries acts"

text \<open>The envelope a queued pointer leads to, read from the heap.\<close>

definition envelope_at :: "bridge \<Rightarrow> addr \<Rightarrow> (double \<times> byte list) option" where
  "envelope_at w p =
     (case heap_msgs w p of
        None \<Rightarrow> None
      | Some m \<Rightarrow>
          (case message m of
             None \<Rightarrow> None
           | Some b \<Rightarrow>
               (case heap_bufs w b of
                  None \<Rightarrow> None
                | Some bytes \<Rightarrow> Some (deltaTime m, take (messageLength m) bytes))))"

section \<open>Sequences of operations\<close>

text \<open>
  What can happen to one object after its construction: the consumer calls a method, or
  N-API runs the finalizer that \<^verbatim>\<open>setupCallback\<close> gave to the thread-safe function
  (lines 79 to 82), which calls \<^verbatim>\<open>closePortAndRemoveCallback\<close>. Each step comes with the
  state of the outside world at that moment.
\<close>

datatype op =
    OpGetPortCount "jsvalue list"
  | OpGetPortName "jsvalue list"
  | OpOpenPort "jsvalue list"
  | OpOpenVirtualPort "jsvalue list"
  | OpClosePort "jsvalue list"
  | OpDestroy "jsvalue list"
  | OpIsPortOpen "jsvalue list"
  | OpIgnoreTypes "jsvalue list"
  | TsfnFinalizer

fun invoke :: "driver_env \<Rightarrow> op \<Rightarrow> NodeMidiInput \<Rightarrow> js_result \<times> NodeMidiInput" where
  "invoke env (OpGetPortCount info) s = GetPortCount env info s"
| "invoke env (OpGetPortName info) s = GetPortName env info s"
| "invoke env (OpOpenPort info) s = OpenPort env info s"
| "invoke env (OpOpenVirtualPort info) s = OpenVirtualPort env info s"
| "invoke env (OpClosePort info) s = ClosePort env info s"
| "invoke env (OpDestroy info) s = Destroy env info s"
| "invoke env (OpIsPortOpen info) s = IsPortOpen env info s"
| "invoke env (OpIgnoreTypes info) s = IgnoreTypes env info s"
| "invoke env TsfnFinalizer s = (Inr JsUndefined, closePortAndRemoveCallback s)"

definition step :: "NodeMidiInput \<Rightarrow> driver_env \<times> op \<Rightarrow> NodeMidiInput" where
  "step s eo = snd (invoke (fst eo) (snd eo) s)"

definition run :: "(driver_env \<times> op) list \<Rightarrow> NodeMidiInput \<Rightarrow> NodeMidiInput" where
  "run ops s = foldl step s ops"

text \<open>The object right after a successful construction with the consumer's function \<open>f\<close>.\<close>

definition constructed :: "nat \<Rightarrow> NodeMidiInput" where
  "constructed f = snd (NodeMidiInput_new False [JsFunction f])"

text \<open>The events an operation added to the trace.\<close>

definition new_events :: "NodeMidiInput \<Rightarrow> NodeMidiInput \<Rightarrow> event list" where
  "new_events s s' = drop (length (trace s)) (trace s')"

subsection \<open>Reading a trace\<close>

text \<open>
  Replaying a trace tells, at each point, whether a thread-safe function exists (created
  and not yet aborted) and whether the driver holds the callback (set and not yet
  cancelled).
\<close>

type_synonym arming = "bool \<times> bool"

definition arming_step :: "arming \<Rightarrow> event \<Rightarrow> arming" where
  "arming_step a e =
     (case e of
        TsfnNew \<Rightarrow> (True, snd a)
      | TsfnAbort \<Rightarrow> (False, snd a)
      | DrvSetCallback \<Rightarrow> (fst a, True)
      | DrvCancelCallback \<Rightarrow> (fst a, False)
      | _ \<Rightarrow> a)"

definition arming_of :: "event list \<Rightarrow> arming" where
  "arming_of es = foldl arming_step (False, False) es"

definition is_open_event :: "event \<Rightarrow> bool" where
  "is_open_event e = (case e of DrvOpenPort n \<Rightarrow> True | DrvOpenVirtualPort nm \<Rightarrow> True | _ \<Rightarrow> False)"

text \<open>
  Every opening of a port happens while the function exists and the callback is set, and
  at no moment does the driver hold the callback while no function exists.
\<close>

fun bridge_first :: "arming \<Rightarrow> event list \<Rightarrow> bool" where
  "bridge_first a [] = True"
| "bridge_first a (e # es) =
     ((if is_open_event e then fst a \<and> snd a else True)
      \<and> (if snd (arming_step a e) then fst (arming_step a e) else True)
      \<and> bridge_first (arming_step a e) es)"

text \<open>
  No thread-safe function is created while one exists, and no callback is set while the
  driver holds one.
\<close>

fun single_arming :: "arming \<Rightarrow> event list \<Rightarrow> bool" where
  "single_arming a [] = True"
| "single_arming a (e # es) =
     ((if e = TsfnNew then \<not> fst a else True) \<and> (if e = DrvSetCallback then \<not> snd a else True)
      \<and> single_arming (arming_step a e) es)"

text \<open>The first \<open>a\<close> of a trace comes before its first \<open>b\<close>, and both occur.\<close>

fun occurs_before :: "event \<Rightarrow> event \<Rightarrow> event list \<Rightarrow> bool" where
  "occurs_before a b [] = False"
| "occurs_before a b (e # es) =
     (if e = b then False else if e = a then b \<in> set es else occurs_before a b es)"

text \<open>
  What holds of every object between two operations: the flag \<open>configured\<close> is set
  exactly when the thread-safe function is live and the driver holds the callback, and
  never on an object whose handle is gone.
\<close>

definition consistent :: "NodeMidiInput \<Rightarrow> bool" where
  "consistent s =
     (configured s = (map_option usingCallback (handle s) = Some True)
      \<and> configured s = (handleMessage s = TsfnLive)
      \<and> arming_of (trace s) = (configured s, configured s))"

text \<open>
  The discipline of a whole history: the object is consistent now, every port was opened
  under an armed bridge, and the bridge was never armed twice over.
\<close>

definition disciplined :: "NodeMidiInput \<Rightarrow> bool" where
  "disciplined s =
     (consistent s \<and> bridge_first (False, False) (trace s) \<and> single_arming (False, False) (trace s))"

text \<open>The comparison \<^verbatim>\<open>index >= portCount\<close> read on the JavaScript number itself.\<close>

fun number_ge_uint :: "double \<Rightarrow> uint \<Rightarrow> bool" where
  "number_ge_uint (Finite q) n = (of_nat (unat n) \<le> q)"
| "number_ge_uint PosInf n = True"
| "number_ge_uint NegInf n = False"
| "number_ge_uint NaN n = False"

text \<open>Concrete inputs: a world with two ports that open, and one where opening fails.\<close>

definition two_ports :: driver_env where
  "two_ports =
     \<lparr>portCount = 2,
      portName = (\<lambda>n. if n < 2 then Inr ''Port'' else Inl RtMidiError),
      openPortFails = (\<lambda>n. False),
      openVirtualPortFails = (\<lambda>nm. False)\<rparr>"

definition failing_ports :: driver_env where
  "failing_ports =
     \<lparr>portCount = 2,
      portName = (\<lambda>n. Inl RtMidiError),
      openPortFails = (\<lambda>n. True),
      openVirtualPortFails = (\<lambda>nm. True)\<rparr>"

text \<open>An object whose virtual port "Test" is open, and the same object after a failed open.\<close>

definition open_object :: NodeMidiInput where
  "open_object = run [(two_ports, OpOpenVirtualPort [JsString ''Test''])] (constructed 0)"

definition failed_object :: NodeMidiInput where
  "failed_object = run [(failing_ports, OpOpenPort [JsNumber (Finite 0)])] (constructed 0)"

subsection \<open>The shape of the shared memory\<close>

text \<open>
  What holds of the memory between two steps of a schedule. \<^verbatim>\<open>Callback\<close> allocates an
  envelope and its bytes at two consecutive addresses, so a queued pointer \<open>p\<close> is even,
  leads to a live envelope whose bytes live at \<open>p + 1\<close>, and neither was freed. Nothing
  else is live: the queue owns every envelope, and every address handed out so far is
  either owned by the queue or freed.
\<close>

definition queued_ok :: "bridge \<Rightarrow> addr \<Rightarrow> bool" where
  "queued_ok w p =
     (even p \<and> Suc p < next_addr w \<and> p \<notin> set (freed w) \<and> Suc p \<notin> set (freed w)
      \<and> (case heap_msgs w p of
            None \<Rightarrow> False
          | Some m \<Rightarrow> message m = Some (Suc p) \<and> heap_bufs w (Suc p) \<noteq> None))"

definition bridge_inv :: "bridge \<Rightarrow> bool" where
  "bridge_inv w =
     (\<not> fault w \<and> even (next_addr w)
      \<and> distinct (tsfn_queue w) \<and> list_all (queued_ok w) (tsfn_queue w)
      \<and> distinct (freed w) \<and> list_all (\<lambda>a. a < next_addr w) (freed w)
      \<and> dom (heap_msgs w) = set (tsfn_queue w)
      \<and> dom (heap_bufs w) = Suc ` set (tsfn_queue w)
      \<and> set (freed w) \<union> set (tsfn_queue w) \<union> Suc ` set (tsfn_queue w) = {..<next_addr w})"

text \<open>
  The handler's calls so far, followed by the envelopes still queued, are the messages
  \<open>ds\<close>, in order.
\<close>

definition in_order :: "bridge \<Rightarrow> (double \<times> byte list) list \<Rightarrow> bool" where
  "in_order w ds = (map Some (calls w) @ map (envelope_at w) (tsfn_queue w) = map Some ds)"

text \<open>
  Modelled from the spec: \<^verbatim>\<open>Abort\<close> of the thread-safe function (N-API): from now on it
  is closing.
\<close>

definition Abort :: "bridge \<Rightarrow> bridge" where
  "Abort w = w\<lparr>tsfn_closing := True\<rparr>"

text \<open>A schedule used as a concrete input, and the note-on message of the spec's scenario.\<close>

definition note_on :: "byte list" where
  "note_on = [0x90, 0x40, 0x7F]"

definition demo_schedule :: "action list" where
  "demo_schedule = [Deliver (Finite 0) note_on, Deliver (Finite (1 / 2)) [0xF8], Dispatch, Deliver (Finite 1) []]"

subsection \<open>Schedules in which the bridge is disarmed\<close>

text \<open>
  The close path (\<^verbatim>\<open>closePortAndRemoveCallback\<close>, lines 99 and 100) aborts the thread-safe
  function. A turn is a step of one of the two threads, or that abort.
\<close>

datatype turn = Step action | Disarm

fun take_turn :: "bridge \<Rightarrow> turn \<Rightarrow> bridge" where
  "take_turn w (Step a) = act w a"
| "take_turn w Disarm = Abort w"

definition run_turns :: "turn list \<Rightarrow> bridge \<Rightarrow> bridge" where
  "run_turns ts w = foldl take_turn w ts"

text \<open>The steps taken while the bridge is armed: those before the first abort.\<close>

fun while_armed :: "turn list \<Rightarrow> action list" where
  "while_armed [] = []"
| "while_armed (Step a # ts) = a # while_armed ts"
| "while_armed (Disarm # ts) = []"

text \<open>
  The part of the shape of the memory that also survives an abort: after it a delivery is
  refused by the queue, so its envelope is live without being queued.
\<close>

definition bridge_safe :: "bridge \<Rightarrow> bool" where
  "bridge_safe w =
     (\<not> fault w \<and> even (next_addr w)
      \<and> distinct (tsfn_queue w) \<and> list_all (queued_ok w) (tsfn_queue w)
      \<and> distinct (freed w) \<and> list_all (\<lambda>a. a < next_addr w) (freed w))"

text \<open>A message is delivered, the bridge is disarmed, then the consumer's loop runs.\<close>

definition dropped_schedule :: "turn list" where
  "dropped_schedule = [Step (Deliver (Finite 0) note_on), Disarm, Step Dispatch]"

text \<open>Two messages, one dispatched before the abort; a third arrives after it.\<close>

definition mixed_schedule :: "turn list" where
  "mixed_schedule =
     [Step (Deliver (Finite 0) note_on), Step (Deliver (Finite (1 / 2)) [0xF8]), Step Dispatch, Disarm,
      Step (Deliver (Finite 1) []), Step Dispatch]"

text \<open>The bridge after the driver delivered the note-on message at time 0.\<close>

definition one_queued :: bridge where
  "one_queued = Callback (Finite 0) note_on armed_bridge"

section \<open>Basic facts\<close>

lemmas call_defs = record_event_def on_handle_def try_on_handle_def

lemmas op_defs = GetPortCount_def GetPortName_def OpenPort_def OpenVirtualPort_def
  ClosePort_def Destroy_def IsPortOpen_def IgnoreTypes_def

lemma truncate_of_nat: "truncate_toward_zero (of_nat k) = int k"
  by (simp add: truncate_toward_zero_def)

lemma Uint32Value_of_uint: "Uint32Value (Finite (of_nat (unat n))) = n"
proof -
  have "Uint32Value (Finite (of_nat (unat n))) = word_of_int (int (unat n))"
    by (simp only: Uint32Value.simps truncate_of_nat)
  then show ?thesis by simp
qed

lemma closePort_destroyed: "handle s = None \<Longrightarrow> closePortAndRemoveCallback s = s"
  by (simp add: closePortAndRemoveCallback_def)

lemma invoke_destroyed: "handle s = None \<Longrightarrow> snd (invoke env x s) = s"
  by (cases x) (simp_all add: op_defs closePort_destroyed)

lemma run_destroyed: "handle s = None \<Longrightarrow> run ops s = s"
  unfolding run_def
  by (induction ops arbitrary: s) (simp_all add: step_def invoke_destroyed)

lemma handle_Destroy: "handle (snd (Destroy env info s)) = None"
  by (simp add: Destroy_def call_defs)

lemma new_events_append: "trace s' = trace s @ evs \<Longrightarrow> new_events s s' = evs"
  by (simp add: new_events_def)

lemma trace_setupCallback:
  "trace (setupCallback s) = trace s @ (if configured s then [] else [TsfnNew, DrvSetCallback])"
  by (simp add: setupCallback_def call_defs)

lemma configured_setupCallback: "configured (setupCallback s)"
  by (simp add: setupCallback_def call_defs)

lemma handle_setupCallback:
  "handle (setupCallback s) = (if configured s then handle s else map_option drv_setCallback (handle s))"
  by (simp add: setupCallback_def call_defs)

lemma handleMessage_setupCallback:
  "handleMessage (setupCallback s) = (if configured s then handleMessage s else TsfnLive)"
  by (simp add: setupCallback_def call_defs)

lemma trace_closePort:
  "trace (closePortAndRemoveCallback s) =
     trace s @ (if handle s = None then []
                else DrvClosePort # (if configured s then [DrvCancelCallback, TsfnAbort, TsfnRelease] else []))"
  by (simp add: closePortAndRemoveCallback_def call_defs)

lemma configured_closePort:
  "handle s = Some h \<Longrightarrow> \<not> configured (closePortAndRemoveCallback s)"
  by (simp add: closePortAndRemoveCallback_def call_defs Let_def)

lemma handle_closePort:
  "handle (closePortAndRemoveCallback s) =
     map_option (\<lambda>h. if configured s then drv_cancelCallback (drv_closePort h) else drv_closePort h) (handle s)"
  by (cases "handle s") (simp_all add: closePortAndRemoveCallback_def call_defs)

lemma OpenPort_range_error:
  "handle s = Some h \<Longrightarrow> portCount env \<le> Uint32Value x \<Longrightarrow>
   OpenPort env (JsNumber x # rest) s
     = (Inl (RangeError, ''Invalid MIDI port number''), record_event DrvGetPortCount s)"
  by (simp add: OpenPort_def)

lemma OpenPort_in_range:
  "handle s = Some h \<Longrightarrow> \<not> portCount env \<le> Uint32Value x \<Longrightarrow>
   fst (OpenPort env (JsNumber x # rest) s)
     = (if openPortFails env (Uint32Value x) then Inl (Error, ''Internal RtMidi error'') else Inr JsNull)
   \<and> trace (snd (OpenPort env (JsNumber x # rest) s))
       = trace s @ DrvGetPortCount # (if configured s then [] else [TsfnNew, DrvSetCallback])
           @ [DrvOpenPort (Uint32Value x)]
   \<and> configured (snd (OpenPort env (JsNumber x # rest) s))"
  by (simp add: OpenPort_def Let_def setupCallback_def call_defs drv_openPort_def split: prod.splits)

lemma OpenVirtualPort_string:
  "handle s = Some h \<Longrightarrow>
   fst (OpenVirtualPort env (JsString nm # rest) s)
     = (if openVirtualPortFails env nm then Inl (Error, ''Internal RtMidi error'') else Inr JsNull)
   \<and> trace (snd (OpenVirtualPort env (JsString nm # rest) s))
       = trace s @ (if configured s then [] else [TsfnNew, DrvSetCallback]) @ [DrvOpenVirtualPort nm]
   \<and> configured (snd (OpenVirtualPort env (JsString nm # rest) s))"
  by (simp add: OpenVirtualPort_def Let_def setupCallback_def call_defs drv_openVirtualPort_def
      split: prod.splits)

lemma GetPortName_number:
  "handle s = Some h \<Longrightarrow>
   GetPortName env (JsNumber x # rest) s
     = (case portName env (Uint32Value x) of
          Inr nm \<Rightarrow> Inr (JsString nm)
        | Inl err \<Rightarrow> Inl (TypeError, ''Internal RtMidi error''),
        record_event (DrvGetPortName (Uint32Value x)) s)"
  by (simp add: GetPortName_def Let_def split: sum.splits)

section \<open>Operations on a destroyed object\<close>

text \<open>
  Claim C4. Whatever the object was, once \<^verbatim>\<open>destroy()\<close> has run on it the handle is
  null; each of getPortCount, getPortName, openPort, openVirtualPort, closePort,
  isPortOpen and ignoreTypes then throws the error "RtMidi not initialised" and returns
  the object unchanged (no field changes and no call is made on the driver or on the
  thread-safe function, since the trace is a field); a second \<^verbatim>\<open>destroy()\<close> returns null
  and changes nothing; and the object stays so under every further sequence of
  operations.
\<close>

theorem destroyed_operations_fail:
  "handle (snd (Destroy env0 info0 s)) = None
   \<and> GetPortCount env info (snd (Destroy env0 info0 s)) = (Inl NotInitialised, snd (Destroy env0 info0 s))
   \<and> GetPortName env info (snd (Destroy env0 info0 s)) = (Inl NotInitialised, snd (Destroy env0 info0 s))
   \<and> OpenPort env info (snd (Destroy env0 info0 s)) = (Inl NotInitialised, snd (Destroy env0 info0 s))
   \<and> OpenVirtualPort env info (snd (Destroy env0 info0 s)) = (Inl NotInitialised, snd (Destroy env0 info0 s))
   \<and> ClosePort env info (snd (Destroy env0 info0 s)) = (Inl NotInitialised, snd (Destroy env0 info0 s))
   \<and> IsPortOpen env info (snd (Destroy env0 info0 s)) = (Inl NotInitialised, snd (Destroy env0 info0 s))
   \<and> IgnoreTypes env info (snd (Destroy env0 info0 s)) = (Inl NotInitialised, snd (Destroy env0 info0 s))
   \<and> Destroy env info (snd (Destroy env0 info0 s)) = (Inr JsNull, snd (Destroy env0 info0 s))
   \<and> run ops (snd (Destroy env0 info0 s)) = snd (Destroy env0 info0 s)"
proof -
  have h: "handle (snd (Destroy env0 info0 s)) = None"
    by (rule handle_Destroy)
  show ?thesis
    using h
    by (simp add: GetPortCount_def GetPortName_def OpenPort_def OpenVirtualPort_def ClosePort_def
        Destroy_def [of env info] IsPortOpen_def IgnoreTypes_def run_destroyed)
qed

lemma constructed_simp:
  "constructed f = \<lparr>handle = Some new_RtMidiIn, configured = False, handleMessage = TsfnEmpty,
     emitMessage = Some f, trace = []\<rparr>"
  by (simp add: constructed_def not_constructed_def)

lemma open_object_simp:
  "open_object = \<lparr>handle = Some \<lparr>connected = True, usingCallback = True, ignoreFlags = (True, True, True)\<rparr>,
     configured = True, handleMessage = TsfnLive, emitMessage = Some 0,
     trace = [TsfnNew, DrvSetCallback, DrvOpenVirtualPort ''Test'']\<rparr>"
  by (simp add: open_object_def run_def step_def constructed_simp OpenVirtualPort_def Let_def
      setupCallback_def call_defs drv_openVirtualPort_def two_ports_def new_RtMidiIn_def drv_setCallback_def)

lemma failed_object_simp:
  "failed_object = \<lparr>handle = Some \<lparr>connected = False, usingCallback = True, ignoreFlags = (True, True, True)\<rparr>,
     configured = True, handleMessage = TsfnLive, emitMessage = Some 0,
     trace = [DrvGetPortCount, TsfnNew, DrvSetCallback, DrvOpenPort 0]\<rparr>"
  by (simp add: failed_object_def run_def step_def constructed_simp OpenPort_def Let_def
      setupCallback_def call_defs drv_openPort_def failing_ports_def new_RtMidiIn_def drv_setCallback_def
      truncate_toward_zero_def)

section \<open>The order of teardown\<close>

text \<open>
  Claim C3, as stated: on closePort the bridge is disarmed first, then the driver callback
  is cancelled, then the port is closed. It fails on the object whose virtual port "Test"
  is open: among the calls closePort makes there, the abort of the thread-safe function
  does not come before the cancellation, and the cancellation does not come before the
  closing of the port.
\<close>

theorem close_order_counterexample:
  "\<not> (occurs_before TsfnAbort DrvCancelCallback (new_events open_object (snd (ClosePort two_ports [] open_object)))
      \<and> occurs_before DrvCancelCallback DrvClosePort (new_events open_object (snd (ClosePort two_ports [] open_object))))"
proof -
  have "new_events open_object (snd (ClosePort two_ports [] open_object))
          = [DrvClosePort, DrvCancelCallback, TsfnAbort, TsfnRelease]"
    by (rule new_events_append) (simp add: ClosePort_def trace_closePort open_object_simp)
  then show ?thesis by simp
qed

text \<open>
  Claim C3, amended: on every closePort of an object that has its handle, and on the close
  path reached from destroy, from the destructor and from the finalizer of the
  thread-safe function, the calls are, in this order: close the port; then, only when the
  bridge is armed, cancel the driver callback, abort the thread-safe function and release
  it. Destroy and the destructor then release the handle.
\<close>

theorem close_order:
  "handle s = Some h \<Longrightarrow>
     new_events s (snd (ClosePort env info s))
       = DrvClosePort # (if configured s then [DrvCancelCallback, TsfnAbort, TsfnRelease] else [])
   \<and> new_events s (snd (Destroy env info s))
       = DrvClosePort # (if configured s then [DrvCancelCallback, TsfnAbort, TsfnRelease] else []) @ [HandleReset]
   \<and> new_events s (NodeMidiInput_delete s)
       = DrvClosePort # (if configured s then [DrvCancelCallback, TsfnAbort, TsfnRelease] else []) @ [HandleReset]
   \<and> new_events s (snd (invoke env TsfnFinalizer s))
       = DrvClosePort # (if configured s then [DrvCancelCallback, TsfnAbort, TsfnRelease] else [])"
proof (intro conjI)
  assume h: "handle s = Some h"
  show "new_events s (snd (ClosePort env info s))
       = DrvClosePort # (if configured s then [DrvCancelCallback, TsfnAbort, TsfnRelease] else [])"
    by (rule new_events_append) (simp add: ClosePort_def trace_closePort h)
  show "new_events s (snd (Destroy env info s))
       = DrvClosePort # (if configured s then [DrvCancelCallback, TsfnAbort, TsfnRelease] else []) @ [HandleReset]"
    by (rule new_events_append) (simp add: Destroy_def record_event_def trace_closePort h)
  show "new_events s (NodeMidiInput_delete s)
       = DrvClosePort # (if configured s then [DrvCancelCallback, TsfnAbort, TsfnRelease] else []) @ [HandleReset]"
    by (rule new_events_append) (simp add: NodeMidiInput_delete_def record_event_def trace_closePort h)
  show "new_events s (snd (invoke env TsfnFinalizer s))
       = DrvClosePort # (if configured s then [DrvCancelCallback, TsfnAbort, TsfnRelease] else [])"
    by (rule new_events_append) (simp add: trace_closePort h)
qed

theorem close_order_witness:
  "handle open_object = Some \<lparr>connected = True, usingCallback = True, ignoreFlags = (True, True, True)\<rparr>
   \<and> new_events open_object (snd (ClosePort two_ports [] open_object))
       = [DrvClosePort, DrvCancelCallback, TsfnAbort, TsfnRelease]
   \<and> new_events open_object (snd (Destroy two_ports [] open_object))
       = [DrvClosePort, DrvCancelCallback, TsfnAbort, TsfnRelease, HandleReset]
   \<and> new_events (constructed 0) (NodeMidiInput_delete (constructed 0)) = [DrvClosePort, HandleReset]"
  using close_order [of open_object "\<lparr>connected = True, usingCallback = True, ignoreFlags = (True, True, True)\<rparr>" two_ports "[]"]
    close_order [of "constructed 0" new_RtMidiIn two_ports "[]"]
  by (simp add: open_object_simp constructed_simp)

lemma Uint32Value_two32: "Uint32Value (Finite 4294967296) = 0"
  by (simp add: truncate_toward_zero_def)

section \<open>The range check of openPort\<close>

text \<open>
  Claim C5. The guard of line 203 is there to refuse a port number that is not below the
  port count, but it compares the index after line 202 has narrowed it to
  \<^verbatim>\<open>unsigned int\<close>. On a new object with two ports the number 4294967296, and likewise
  +Infinity, is not below the port count, and yet openPort throws no range error: it
  returns null after arming the bridge and opening port 0.
\<close>

theorem range_check_bypassed:
  "number_ge_uint (Finite 4294967296) (portCount two_ports)
   \<and> fst (OpenPort two_ports [JsNumber (Finite 4294967296)] (constructed 0)) = Inr JsNull
   \<and> new_events (constructed 0) (snd (OpenPort two_ports [JsNumber (Finite 4294967296)] (constructed 0)))
       = [DrvGetPortCount, TsfnNew, DrvSetCallback, DrvOpenPort 0]
   \<and> number_ge_uint PosInf (portCount two_ports)
   \<and> fst (OpenPort two_ports [JsNumber PosInf] (constructed 0)) = Inr JsNull
   \<and> new_events (constructed 0) (snd (OpenPort two_ports [JsNumber PosInf] (constructed 0)))
       = [DrvGetPortCount, TsfnNew, DrvSetCallback, DrvOpenPort 0]"
proof -
  have r1: "\<not> portCount two_ports \<le> Uint32Value (Finite 4294967296)"
    by (simp add: two_ports_def Uint32Value_two32 del: Uint32Value.simps)
  have r2: "\<not> portCount two_ports \<le> Uint32Value PosInf"
    by (simp add: two_ports_def)
  have h: "handle (constructed 0) = Some new_RtMidiIn" "\<not> configured (constructed 0)"
    by (simp_all add: constructed_simp)
  note a = OpenPort_in_range [OF h(1) r1, of "[]"] and b = OpenPort_in_range [OF h(1) r2, of "[]"]
  have "new_events (constructed 0) (snd (OpenPort two_ports [JsNumber (Finite 4294967296)] (constructed 0)))
       = [DrvGetPortCount, TsfnNew, DrvSetCallback, DrvOpenPort 0]"
    by (rule new_events_append) (use a h(2) in \<open>simp add: Uint32Value_two32 del: Uint32Value.simps\<close>)
  moreover have "new_events (constructed 0) (snd (OpenPort two_ports [JsNumber PosInf] (constructed 0)))
       = [DrvGetPortCount, TsfnNew, DrvSetCallback, DrvOpenPort 0]"
    by (rule new_events_append) (use b h(2) in simp)
  moreover have "fst (OpenPort two_ports [JsNumber (Finite 4294967296)] (constructed 0)) = Inr JsNull"
    "fst (OpenPort two_ports [JsNumber PosInf] (constructed 0)) = Inr JsNull"
    using a b by (simp_all add: two_ports_def del: Uint32Value.simps)
  ultimately show ?thesis
    by (simp add: two_ports_def)
qed

lemma truncate_toward_zero_abs: "\<bar>of_int (truncate_toward_zero q)\<bar> \<le> \<bar>q\<bar>"
proof (cases "0 \<le> q")
  case True
  then have "0 \<le> \<lfloor>q\<rfloor>" by simp
  moreover have "of_int \<lfloor>q\<rfloor> \<le> q" by (rule of_int_floor_le)
  ultimately show ?thesis using True by (simp add: truncate_toward_zero_def)
next
  case False
  then have "\<lceil>q\<rceil> \<le> 0" by (simp add: ceiling_le_zero)
  moreover have "q \<le> of_int \<lceil>q\<rceil>" by (rule le_of_int_ceiling)
  ultimately show ?thesis using False by (simp add: truncate_toward_zero_def)
qed

lemma truncate_toward_zero_near: "\<bar>q - of_int (truncate_toward_zero q)\<bar> < 1"
proof (cases "0 \<le> q")
  case True
  have "of_int \<lfloor>q\<rfloor> \<le> q" "q < of_int \<lfloor>q\<rfloor> + 1" by linarith+
  then show ?thesis using True by (simp add: truncate_toward_zero_def)
next
  case False
  have "q \<le> of_int \<lceil>q\<rceil>" "of_int \<lceil>q\<rceil> < q + 1" by linarith+
  then show ?thesis using False by (simp add: truncate_toward_zero_def)
qed

lemma truncate_minus_one: "truncate_toward_zero (- 1) = - 1"
  using ceiling_of_int [of "- 1", where 'a = rat] by (simp add: truncate_toward_zero_def)

lemma truncate_three_halves: "truncate_toward_zero (3 / 2) = 1"
proof -
  have "\<lfloor>3 / 2 :: rat\<rfloor> = 1" by (rule floor_unique) simp_all
  then show ?thesis by (simp add: truncate_toward_zero_def)
qed

lemma Uint32Value_examples:
  "Uint32Value (Finite 0) = 0" "Uint32Value (Finite 1) = 1" "Uint32Value (Finite (numeral v)) = numeral v"
  "Uint32Value (Finite (- 1)) = 4294967295" "Uint32Value (Finite (3 / 2)) = 1"
  by (simp_all add: truncate_minus_one truncate_three_halves) (simp_all add: truncate_toward_zero_def)

section \<open>Driver errors at the boundary\<close>

text \<open>
  Claim C8. On an object that has its handle, a driver failure (an \<^verbatim>\<open>RtMidiError\<close> thrown by
  the driver's getPortName, openPort or openVirtualPort) ends the public operation with a
  JavaScript exception whose message is "Internal RtMidi error" (a TypeError from
  getPortName, an Error from the two opens): the three calls that can throw stand inside
  a try block, so nothing else comes out. For every index, in range or not, getPortName
  returns exactly the string the driver gave for that index, or that exception.
\<close>

theorem driver_errors_reported:
  "handle s = Some h \<Longrightarrow>
     (\<forall>e. portName env (Uint32Value x) = Inl e \<longrightarrow>
         fst (GetPortName env (JsNumber x # rest) s) = Inl (TypeError, ''Internal RtMidi error''))
   \<and> (\<forall>nm. portName env (Uint32Value x) = Inr nm \<longrightarrow>
         fst (GetPortName env (JsNumber x # rest) s) = Inr (JsString nm))
   \<and> (\<not> portCount env \<le> Uint32Value x \<and> openPortFails env (Uint32Value x) \<longrightarrow>
         fst (OpenPort env (JsNumber x # rest) s) = Inl (Error, ''Internal RtMidi error''))
   \<and> (openVirtualPortFails env nm \<longrightarrow>
         fst (OpenVirtualPort env (JsString nm # rest) s) = Inl (Error, ''Internal RtMidi error''))"
proof (intro conjI allI impI)
  assume h: "handle s = Some h"
  { fix e assume "portName env (Uint32Value x) = Inl e"
    then show "fst (GetPortName env (JsNumber x # rest) s) = Inl (TypeError, ''Internal RtMidi error'')"
      by (simp add: GetPortName_number [OF h]) }
  { fix nm assume "portName env (Uint32Value x) = Inr nm"
    then show "fst (GetPortName env (JsNumber x # rest) s) = Inr (JsString nm)"
      by (simp add: GetPortName_number [OF h]) }
  { assume a: "\<not> portCount env \<le> Uint32Value x \<and> openPortFails env (Uint32Value x)"
    then show "fst (OpenPort env (JsNumber x # rest) s) = Inl (Error, ''Internal RtMidi error'')"
      using OpenPort_in_range [OF h, of env x rest] by simp }
  { assume "openVirtualPortFails env nm"
    then show "fst (OpenVirtualPort env (JsString nm # rest) s) = Inl (Error, ''Internal RtMidi error'')"
      using OpenVirtualPort_string [OF h, of env nm rest] by simp }
qed

theorem driver_errors_reported_witness:
  "handle (constructed 0) = Some new_RtMidiIn
   \<and> portName failing_ports (Uint32Value (Finite 5)) = Inl RtMidiError
   \<and> fst (GetPortName failing_ports [JsNumber (Finite 5)] (constructed 0)) = Inl (TypeError, ''Internal RtMidi error'')
   \<and> portName two_ports (Uint32Value (Finite 1)) = Inr ''Port''
   \<and> fst (GetPortName two_ports [JsNumber (Finite 1)] (constructed 0)) = Inr (JsString ''Port'')
   \<and> \<not> portCount failing_ports \<le> Uint32Value (Finite 1) \<and> openPortFails failing_ports (Uint32Value (Finite 1))
   \<and> fst (OpenPort failing_ports [JsNumber (Finite 1)] (constructed 0)) = Inl (Error, ''Internal RtMidi error'')
   \<and> openVirtualPortFails failing_ports ''Test''
   \<and> fst (OpenVirtualPort failing_ports [JsString ''Test''] (constructed 0)) = Inl (Error, ''Internal RtMidi error'')"
  using driver_errors_reported [of "constructed 0" new_RtMidiIn failing_ports "Finite 5" "[]" "''Test''"]
        driver_errors_reported [of "constructed 0" new_RtMidiIn failing_ports "Finite 1" "[]" "''Test''"]
        driver_errors_reported [of "constructed 0" new_RtMidiIn two_ports "Finite 1" "[]" "''Test''"]
  by (simp add: constructed_simp two_ports_def failing_ports_def Uint32Value_examples word_le_nat_alt
      word_less_nat_alt del: Uint32Value.simps)

section \<open>The conversion of the index\<close>

text \<open>
  Claim C10. On an object that has its handle, openPort and getPortName accept every
  number: neither throws the TypeError of the argument check. The index they use is the
  number converted to \<^verbatim>\<open>unsigned int\<close>: openPort throws the range error exactly when the
  converted value is at least the port count and otherwise calls the driver's openPort
  with the converted value; getPortName calls the driver with it. The conversion of a
  finite number is its truncation toward zero (an integer no larger in magnitude and less
  than 1 away) reduced modulo \<open>2 ^ 32\<close>; so -1 is used as 4294967295 and 1.5 as 1.
\<close>

theorem index_conversion:
  "handle s = Some h \<Longrightarrow>
     fst (OpenPort env (JsNumber x # rest) s) \<noteq> Inl (TypeError, ''First argument must be an integer'')
   \<and> fst (GetPortName env (JsNumber x # rest) s) \<noteq> Inl (TypeError, ''First argument must be an integer'')
   \<and> (fst (OpenPort env (JsNumber x # rest) s) = Inl (RangeError, ''Invalid MIDI port number''))
       = (portCount env \<le> Uint32Value x)
   \<and> (\<not> portCount env \<le> Uint32Value x \<longrightarrow>
        last (trace (snd (OpenPort env (JsNumber x # rest) s))) = DrvOpenPort (Uint32Value x))
   \<and> new_events s (snd (GetPortName env (JsNumber x # rest) s)) = [DrvGetPortName (Uint32Value x)]
   \<and> uint (Uint32Value (Finite q)) = truncate_toward_zero q mod 2 ^ 32
   \<and> \<bar>of_int (truncate_toward_zero q)\<bar> \<le> \<bar>q\<bar> \<and> \<bar>q - of_int (truncate_toward_zero q)\<bar> < 1
   \<and> Uint32Value (Finite (- 1)) = 4294967295
   \<and> Uint32Value (Finite (3 / 2)) = 1"
proof (intro conjI impI)
  assume h: "handle s = Some h"
  show "fst (OpenPort env (JsNumber x # rest) s) \<noteq> Inl (TypeError, ''First argument must be an integer'')"
    using OpenPort_in_range [OF h, of env x rest] OpenPort_range_error [OF h, of env x rest]
    by (cases "portCount env \<le> Uint32Value x") auto
  show "fst (GetPortName env (JsNumber x # rest) s) \<noteq> Inl (TypeError, ''First argument must be an integer'')"
    by (simp add: GetPortName_number [OF h] split: sum.splits)
  show "(fst (OpenPort env (JsNumber x # rest) s) = Inl (RangeError, ''Invalid MIDI port number''))
       = (portCount env \<le> Uint32Value x)"
    using OpenPort_in_range [OF h, of env x rest] OpenPort_range_error [OF h, of env x rest]
    by (cases "portCount env \<le> Uint32Value x") auto
  show "last (trace (snd (OpenPort env (JsNumber x # rest) s))) = DrvOpenPort (Uint32Value x)"
    if "\<not> portCount env \<le> Uint32Value x"
    using OpenPort_in_range [OF h that, of rest] by simp
  show "new_events s (snd (GetPortName env (JsNumber x # rest) s)) = [DrvGetPortName (Uint32Value x)]"
    by (rule new_events_append) (simp add: GetPortName_number [OF h] record_event_def)
  show "uint (Uint32Value (Finite q)) = truncate_toward_zero q mod 2 ^ 32"
    by (simp add: uint_word_of_int)
  show "\<bar>of_int (truncate_toward_zero q)\<bar> \<le> \<bar>q\<bar>"
    by (rule truncate_toward_zero_abs)
  show "\<bar>q - of_int (truncate_toward_zero q)\<bar> < 1"
    by (rule truncate_toward_zero_near)
  show "Uint32Value (Finite (- 1)) = 4294967295" "Uint32Value (Finite (3 / 2)) = 1"
    by (rule Uint32Value_examples)+
qed

theorem index_conversion_witness:
  "handle (constructed 0) = Some new_RtMidiIn
   \<and> fst (OpenPort two_ports [JsNumber (Finite (- 1))] (constructed 0)) = Inl (RangeError, ''Invalid MIDI port number'')
   \<and> portCount two_ports \<le> Uint32Value (Finite (- 1))
   \<and> \<not> portCount two_ports \<le> Uint32Value (Finite (3 / 2))
   \<and> last (trace (snd (OpenPort two_ports [JsNumber (Finite (3 / 2))] (constructed 0)))) = DrvOpenPort 1
   \<and> new_events (constructed 0) (snd (GetPortName two_ports [JsNumber (Finite (- 1))] (constructed 0)))
        = [DrvGetPortName 4294967295]"
  using index_conversion [of "constructed 0" new_RtMidiIn two_ports "Finite (- 1)" "[]" 0]
        index_conversion [of "constructed 0" new_RtMidiIn two_ports "Finite (3 / 2)" "[]" 0]
  by (simp add: constructed_simp two_ports_def Uint32Value_examples word_le_nat_alt
      word_less_nat_alt del: Uint32Value.simps)

section \<open>Every reachable object is disciplined\<close>

lemma arming_of_append: "arming_of (xs @ ys) = foldl arming_step (arming_of xs) ys"
  by (simp add: arming_of_def)

lemma bridge_first_append:
  "bridge_first a (xs @ ys) = (bridge_first a xs \<and> bridge_first (foldl arming_step a xs) ys)"
  by (induction xs arbitrary: a) auto

lemma single_arming_append:
  "single_arming a (xs @ ys) = (single_arming a xs \<and> single_arming (foldl arming_step a xs) ys)"
  by (induction xs arbitrary: a) auto

text \<open>An operation that appends \<open>evs\<close> keeps the discipline when \<open>evs\<close> does.\<close>

lemma disciplined_extend:
  assumes "disciplined s"
    and "trace s' = trace s @ evs"
    and "bridge_first (configured s, configured s) evs"
    and "single_arming (configured s, configured s) evs"
    and "foldl arming_step (configured s, configured s) evs = (configured s', configured s')"
    and "configured s' = (map_option usingCallback (handle s') = Some True)"
    and "configured s' = (handleMessage s' = TsfnLive)"
  shows "disciplined s'"
  using assms
  by (simp add: disciplined_def consistent_def arming_of_append bridge_first_append
      single_arming_append arming_of_def [symmetric])

lemma disciplined_constructed: "disciplined (constructed f)"
  by (simp add: disciplined_def consistent_def constructed_simp new_RtMidiIn_def arming_of_def)

lemma disciplined_record_event:
  "disciplined s \<Longrightarrow> e \<in> {DrvGetPortCount, DrvGetPortName n, DrvIsPortOpen} \<Longrightarrow> disciplined (record_event e s)"
  by (rule disciplined_extend [where evs = "[e]"])
     (auto simp: record_event_def arming_step_def is_open_event_def disciplined_def consistent_def)

lemma disciplined_closePort: "disciplined s \<Longrightarrow> disciplined (closePortAndRemoveCallback s)"
  apply (rule disciplined_extend [where evs = "if handle s = None then []
                else DrvClosePort # (if configured s then [DrvCancelCallback, TsfnAbort, TsfnRelease] else [])"])
        apply assumption
       apply (rule trace_closePort)
      apply (simp add: arming_step_def is_open_event_def)
     apply (simp add: arming_step_def)
    apply (auto simp: arming_step_def closePortAndRemoveCallback_def call_defs Let_def
      disciplined_def consistent_def drv_closePort_def drv_cancelCallback_def split: option.splits)
  done


lemma disciplined_setupCallback:
  "disciplined s \<Longrightarrow> handle s = Some h \<Longrightarrow> disciplined (setupCallback s)"
  apply (rule disciplined_extend [where evs = "if configured s then [] else [TsfnNew, DrvSetCallback]"])
        apply assumption
       apply (rule trace_setupCallback)
      apply (simp add: arming_step_def is_open_event_def)
     apply (simp add: arming_step_def)
    apply (auto simp: arming_step_def setupCallback_def call_defs Let_def
      disciplined_def consistent_def drv_setCallback_def)
  done

lemma disciplined_try_open:
  assumes d: "disciplined s" and c: "configured s" and e: "is_open_event e"
    and f: "\<And>h h'. f h = Inr h' \<Longrightarrow> usingCallback h' = usingCallback h"
  shows "disciplined (snd (try_on_handle e f s))"
proof (rule disciplined_extend [OF d, where evs = "[e]"])
  have neutral: "arming_step a e = a" "e \<noteq> TsfnNew" "e \<noteq> DrvSetCallback" for a
    using e by (cases e; simp add: is_open_event_def arming_step_def)+
  show "trace (snd (try_on_handle e f s)) = trace s @ [e]"
    by (simp add: call_defs split: option.splits sum.splits)
  show "bridge_first (configured s, configured s) [e]"
    using c neutral by simp
  show "single_arming (configured s, configured s) [e]"
    using neutral by simp
  have cfg: "configured (snd (try_on_handle e f s)) = configured s"
    by (simp add: call_defs split: option.splits sum.splits)
  show "foldl arming_step (configured s, configured s) [e]
          = (configured (snd (try_on_handle e f s)), configured (snd (try_on_handle e f s)))"
    using neutral by (simp add: cfg)
  show "configured (snd (try_on_handle e f s))
          = (map_option usingCallback (handle (snd (try_on_handle e f s))) = Some True)"
    using d f by (auto simp: cfg disciplined_def consistent_def call_defs split: option.splits sum.splits)
  show "configured (snd (try_on_handle e f s)) = (handleMessage (snd (try_on_handle e f s)) = TsfnLive)"
    using d by (auto simp: disciplined_def consistent_def call_defs split: option.splits sum.splits)
qed

lemma disciplined_on_handle:
  assumes d: "disciplined s" and e: "e = DrvIgnoreTypes a b c"
    and f: "\<And>h. usingCallback (f h) = usingCallback h"
  shows "disciplined (on_handle e f s)"
  by (rule disciplined_extend [OF d, where evs = "[e]"])
     (use d e f in \<open>auto simp: call_defs arming_step_def is_open_event_def disciplined_def consistent_def
        split: option.splits\<close>)

lemma OpenPort_checked_cases:
  "(\<exists>x rest. info = JsNumber x # rest)
   \<or> OpenPort_checked env info s = (Inl (TypeError, ''First argument must be an integer''), s)"
  by (cases "(env, info, s)" rule: OpenPort_checked.cases) auto

lemma GetPortName_checked_cases:
  "(\<exists>x rest. info = JsNumber x # rest)
   \<or> GetPortName_checked env info s = (Inl (TypeError, ''First argument must be an integer''), s)"
  by (cases "(env, info, s)" rule: GetPortName_checked.cases) auto

lemma OpenVirtualPort_checked_cases:
  "(\<exists>nm rest. info = JsString nm # rest)
   \<or> OpenVirtualPort_checked env info s = (Inl (TypeError, ''First argument must be a string''), s)"
  by (cases "(env, info, s)" rule: OpenVirtualPort_checked.cases) auto

lemma IgnoreTypes_checked_cases:
  "(\<exists>a b c. info = [JsBoolean a, JsBoolean b, JsBoolean c])
   \<or> IgnoreTypes_checked info s = (Inl (TypeError, ''Arguments must be boolean''), s)"
  by (cases "(info, s)" rule: IgnoreTypes_checked.cases) auto


lemma disciplined_GetPortCount: "disciplined s \<Longrightarrow> disciplined (snd (GetPortCount env info s))"
  by (simp add: GetPortCount_def disciplined_record_event)

lemma disciplined_GetPortName: "disciplined s \<Longrightarrow> disciplined (snd (GetPortName env info s))"
  using GetPortName_checked_cases [of info env s]
  by (auto simp: GetPortName_def Let_def disciplined_record_event split: sum.splits)

lemma disciplined_IsPortOpen: "disciplined s \<Longrightarrow> disciplined (snd (IsPortOpen env info s))"
  by (auto simp: IsPortOpen_def disciplined_record_event split: option.splits)

lemma disciplined_IgnoreTypes: "disciplined s \<Longrightarrow> disciplined (snd (IgnoreTypes env info s))"
  using IgnoreTypes_checked_cases [of info s]
  by (auto simp: IgnoreTypes_def drv_ignoreTypes_def intro!: disciplined_on_handle [OF _ refl])

lemma disciplined_ClosePort: "disciplined s \<Longrightarrow> disciplined (snd (ClosePort env info s))"
  by (simp add: ClosePort_def disciplined_closePort)

lemma disciplined_reset:
  assumes d: "disciplined s" and c: "\<not> configured s"
  shows "disciplined (record_event HandleReset (s\<lparr>handle := None\<rparr>))"
  by (rule disciplined_extend [OF d, where evs = "[HandleReset]"])
     (use d c in \<open>auto simp: call_defs arming_step_def is_open_event_def disciplined_def consistent_def\<close>)

lemma disciplined_Destroy: "disciplined s \<Longrightarrow> disciplined (snd (Destroy env info s))"
proof (cases "handle s")
  case None
  then show "disciplined s \<Longrightarrow> ?thesis" by (simp add: Destroy_def)
next
  case (Some h)
  assume d: "disciplined s"
  have "disciplined (record_event HandleReset ((closePortAndRemoveCallback s)\<lparr>handle := None\<rparr>))"
    by (rule disciplined_reset) (simp_all add: disciplined_closePort d configured_closePort [OF Some])
  then show ?thesis by (simp add: Destroy_def Some)
qed

lemma disciplined_delete: "disciplined s \<Longrightarrow> handle s = Some h \<Longrightarrow> disciplined (NodeMidiInput_delete s)"
  unfolding NodeMidiInput_delete_def
  by (rule disciplined_reset) (simp_all add: disciplined_closePort configured_closePort)

lemma disciplined_OpenPort: "disciplined s \<Longrightarrow> disciplined (snd (OpenPort env info s))"
proof (cases "handle s")
  case None
  then show "disciplined s \<Longrightarrow> ?thesis" by (simp add: OpenPort_def)
next
  case (Some h)
  assume d: "disciplined s"
  from OpenPort_checked_cases [of info env s] show ?thesis
  proof (elim disjE exE)
    fix x rest assume info: "info = JsNumber x # rest"
    let ?s1 = "record_event DrvGetPortCount s"
    have d1: "disciplined ?s1" by (simp add: disciplined_record_event d)
    have h1: "handle ?s1 = Some h" by (simp add: record_event_def Some)
    have d2: "disciplined (setupCallback ?s1)" by (rule disciplined_setupCallback [OF d1 h1])
    have "disciplined (snd (try_on_handle (DrvOpenPort (Uint32Value x)) (drv_openPort env (Uint32Value x))
            (setupCallback ?s1)))"
      by (rule disciplined_try_open [OF d2 configured_setupCallback])
         (auto simp: is_open_event_def drv_openPort_def split: if_splits)
    then show ?thesis
      using d1 by (simp add: OpenPort_def Some info Let_def case_prod_beta split: option.splits)
  next
    assume "OpenPort_checked env info s = (Inl (TypeError, ''First argument must be an integer''), s)"
    then show ?thesis by (simp add: OpenPort_def d)
  qed
qed

lemma disciplined_OpenVirtualPort: "disciplined s \<Longrightarrow> disciplined (snd (OpenVirtualPort env info s))"
proof (cases "handle s")
  case None
  then show "disciplined s \<Longrightarrow> ?thesis" by (simp add: OpenVirtualPort_def)
next
  case (Some h)
  assume d: "disciplined s"
  from OpenVirtualPort_checked_cases [of info env s] show ?thesis
  proof (elim disjE exE)
    fix nm rest assume info: "info = JsString nm # rest"
    have d2: "disciplined (setupCallback s)" by (rule disciplined_setupCallback [OF d Some])
    have "disciplined (snd (try_on_handle (DrvOpenVirtualPort nm) (drv_openVirtualPort env nm)
            (setupCallback s)))"
      by (rule disciplined_try_open [OF d2 configured_setupCallback])
         (auto simp: is_open_event_def drv_openVirtualPort_def split: if_splits)
    then show ?thesis
      by (simp add: OpenVirtualPort_def Some info Let_def case_prod_beta split: option.splits)
  next
    assume "OpenVirtualPort_checked env info s = (Inl (TypeError, ''First argument must be a string''), s)"
    then show ?thesis by (simp add: OpenVirtualPort_def d)
  qed
qed

lemma disciplined_invoke: "disciplined s \<Longrightarrow> disciplined (snd (invoke env x s))"
  by (cases x)
     (simp_all add: disciplined_GetPortCount disciplined_GetPortName disciplined_OpenPort
       disciplined_OpenVirtualPort disciplined_ClosePort disciplined_Destroy disciplined_IsPortOpen
       disciplined_IgnoreTypes disciplined_closePort)

lemma disciplined_run: "disciplined s \<Longrightarrow> disciplined (run ops s)"
  unfolding run_def
  by (induction ops arbitrary: s) (simp_all add: step_def disciplined_invoke)

lemma disciplined_reachable: "disciplined (run ops (constructed f))"
  by (rule disciplined_run [OF disciplined_constructed])

section \<open>Arming before opening\<close>

text \<open>
  Claim C2. In every history of an object, from its construction on, each call of the
  driver's openPort or openVirtualPort comes at a moment when the thread-safe function
  exists and the driver callback is registered, and the callback is never registered
  while no thread-safe function exists. Within one call: once the handle, the argument
  and (for openPort) the range have been checked, openPort and openVirtualPort create the
  thread-safe function, then register the driver callback, then open the port; when the
  bridge is already armed only the opening remains.
\<close>

theorem arm_before_open:
  "bridge_first (False, False) (trace (run ops (constructed f)))
   \<and> (handle s = Some h \<and> \<not> portCount env \<le> Uint32Value x \<longrightarrow>
        new_events s (snd (OpenPort env (JsNumber x # rest) s))
          = DrvGetPortCount # (if configured s then [] else [TsfnNew, DrvSetCallback])
              @ [DrvOpenPort (Uint32Value x)])
   \<and> (handle s = Some h \<longrightarrow>
        new_events s (snd (OpenVirtualPort env (JsString nm # rest) s))
          = (if configured s then [] else [TsfnNew, DrvSetCallback]) @ [DrvOpenVirtualPort nm])"
proof (intro conjI impI)
  show "bridge_first (False, False) (trace (run ops (constructed f)))"
    using disciplined_reachable [of ops f] by (simp add: disciplined_def)
  show "new_events s (snd (OpenPort env (JsNumber x # rest) s))
          = DrvGetPortCount # (if configured s then [] else [TsfnNew, DrvSetCallback])
              @ [DrvOpenPort (Uint32Value x)]"
    if "handle s = Some h \<and> \<not> portCount env \<le> Uint32Value x"
    using that OpenPort_in_range [of s h env x rest] by (intro new_events_append) simp
  show "new_events s (snd (OpenVirtualPort env (JsString nm # rest) s))
          = (if configured s then [] else [TsfnNew, DrvSetCallback]) @ [DrvOpenVirtualPort nm]"
    if "handle s = Some h"
    using OpenVirtualPort_string [OF that, of env nm rest] by (intro new_events_append) simp
qed

theorem arm_before_open_witness:
  "bridge_first (False, False)
     (trace (run [(two_ports, OpOpenPort [JsNumber (Finite 1)]), (two_ports, OpClosePort []),
                  (two_ports, OpOpenVirtualPort [JsString ''Test''])] (constructed 0)))
   \<and> handle (constructed 0) = Some new_RtMidiIn \<and> \<not> portCount two_ports \<le> Uint32Value (Finite 1)
   \<and> new_events (constructed 0) (snd (OpenPort two_ports [JsNumber (Finite 1)] (constructed 0)))
        = [DrvGetPortCount, TsfnNew, DrvSetCallback, DrvOpenPort 1]
   \<and> new_events (constructed 0) (snd (OpenVirtualPort two_ports [JsString ''Test''] (constructed 0)))
        = [TsfnNew, DrvSetCallback, DrvOpenVirtualPort ''Test'']"
  using arm_before_open [of "[(two_ports, OpOpenPort [JsNumber (Finite 1)]), (two_ports, OpClosePort []),
                  (two_ports, OpOpenVirtualPort [JsString ''Test''])]" 0 "constructed 0" new_RtMidiIn two_ports
                  "Finite 1" "[]" "''Test''"]
  by (simp add: constructed_simp two_ports_def Uint32Value_examples word_le_nat_alt del: Uint32Value.simps)

section \<open>Arming once\<close>

text \<open>
  Claim C9. When the bridge is armed, \<^verbatim>\<open>setupCallback\<close> changes nothing; openPort and
  openVirtualPort on an armed object are not refused for that, and call the driver's open
  without creating a thread-safe function or registering the callback again. In every
  history of an object no thread-safe function is created while one exists and no
  callback is registered while the driver holds one. After the close path has run on an
  object with its handle the flag is reset, and the next \<^verbatim>\<open>setupCallback\<close> arms again.
\<close>

theorem arm_once:
  "(configured s \<longrightarrow> setupCallback s = s)
   \<and> (handle s = Some h \<and> configured s \<and> \<not> portCount env \<le> Uint32Value x \<longrightarrow>
        fst (OpenPort env (JsNumber x # rest) s)
          = (if openPortFails env (Uint32Value x) then Inl (Error, ''Internal RtMidi error'') else Inr JsNull)
        \<and> new_events s (snd (OpenPort env (JsNumber x # rest) s)) = [DrvGetPortCount, DrvOpenPort (Uint32Value x)])
   \<and> (handle s = Some h \<and> configured s \<longrightarrow>
        fst (OpenVirtualPort env (JsString nm # rest) s)
          = (if openVirtualPortFails env nm then Inl (Error, ''Internal RtMidi error'') else Inr JsNull)
        \<and> new_events s (snd (OpenVirtualPort env (JsString nm # rest) s)) = [DrvOpenVirtualPort nm])
   \<and> single_arming (False, False) (trace (run ops (constructed f)))
   \<and> (handle s = Some h \<longrightarrow>
        \<not> configured (closePortAndRemoveCallback s)
        \<and> new_events (closePortAndRemoveCallback s) (setupCallback (closePortAndRemoveCallback s))
            = [TsfnNew, DrvSetCallback])"
proof (intro conjI impI)
  show "setupCallback s = s" if "configured s"
    using that by (simp add: setupCallback_def)
  show "single_arming (False, False) (trace (run ops (constructed f)))"
    using disciplined_reachable [of ops f] by (simp add: disciplined_def)
  { assume a: "handle s = Some h \<and> configured s \<and> \<not> portCount env \<le> Uint32Value x"
    then show "fst (OpenPort env (JsNumber x # rest) s)
          = (if openPortFails env (Uint32Value x) then Inl (Error, ''Internal RtMidi error'') else Inr JsNull)"
      using OpenPort_in_range [of s h env x rest] by simp
    from a show "new_events s (snd (OpenPort env (JsNumber x # rest) s)) = [DrvGetPortCount, DrvOpenPort (Uint32Value x)]"
      using OpenPort_in_range [of s h env x rest] by (intro new_events_append) simp }
  { assume a: "handle s = Some h \<and> configured s"
    then show "fst (OpenVirtualPort env (JsString nm # rest) s)
          = (if openVirtualPortFails env nm then Inl (Error, ''Internal RtMidi error'') else Inr JsNull)"
      using OpenVirtualPort_string [of s h env nm rest] by simp
    from a show "new_events s (snd (OpenVirtualPort env (JsString nm # rest) s)) = [DrvOpenVirtualPort nm]"
      using OpenVirtualPort_string [of s h env nm rest] by (intro new_events_append) simp }
  { assume h: "handle s = Some h"
    show c: "\<not> configured (closePortAndRemoveCallback s)"
      by (rule configured_closePort [OF h])
    show "new_events (closePortAndRemoveCallback s) (setupCallback (closePortAndRemoveCallback s))
            = [TsfnNew, DrvSetCallback]"
      by (rule new_events_append) (simp add: trace_setupCallback c) }
qed

theorem arm_once_witness:
  "configured open_object \<and> setupCallback open_object = open_object
   \<and> handle open_object = Some \<lparr>connected = True, usingCallback = True, ignoreFlags = (True, True, True)\<rparr>
   \<and> \<not> portCount two_ports \<le> Uint32Value (Finite 1)
   \<and> fst (OpenPort two_ports [JsNumber (Finite 1)] open_object) = Inr JsNull
   \<and> new_events open_object (snd (OpenPort two_ports [JsNumber (Finite 1)] open_object))
        = [DrvGetPortCount, DrvOpenPort 1]
   \<and> fst (OpenVirtualPort two_ports [JsString ''Again''] open_object) = Inr JsNull
   \<and> new_events open_object (snd (OpenVirtualPort two_ports [JsString ''Again''] open_object))
        = [DrvOpenVirtualPort ''Again'']
   \<and> single_arming (False, False)
        (trace (run [(failing_ports, OpOpenPort [JsNumber (Finite 0)]), (two_ports, OpOpenPort [JsNumber (Finite 0)]),
                     (two_ports, OpClosePort []), (two_ports, OpOpenPort [JsNumber (Finite 0)])] (constructed 0)))
   \<and> \<not> configured (closePortAndRemoveCallback open_object)"
  using arm_once [of open_object "\<lparr>connected = True, usingCallback = True, ignoreFlags = (True, True, True)\<rparr>"
      two_ports "Finite 1" "[]" "''Again''"
      "[(failing_ports, OpOpenPort [JsNumber (Finite 0)]), (two_ports, OpOpenPort [JsNumber (Finite 0)]),
                     (two_ports, OpClosePort []), (two_ports, OpOpenPort [JsNumber (Finite 0)])]" 0]
  by (simp add: open_object_simp two_ports_def Uint32Value_examples word_le_nat_alt del: Uint32Value.simps)

lemma OpenPort_connected_after_failure:
  "handle s = Some h \<Longrightarrow> \<not> portCount env \<le> Uint32Value x \<Longrightarrow> openPortFails env (Uint32Value x) \<Longrightarrow>
   map_option connected (handle (snd (OpenPort env (JsNumber x # rest) s))) = Some (connected h)"
  by (simp add: OpenPort_def Let_def setupCallback_def call_defs drv_openPort_def drv_setCallback_def)

lemma OpenVirtualPort_connected_after_failure:
  "handle s = Some h \<Longrightarrow> openVirtualPortFails env nm \<Longrightarrow>
   map_option connected (handle (snd (OpenVirtualPort env (JsString nm # rest) s))) = Some (connected h)"
  by (simp add: OpenVirtualPort_def Let_def setupCallback_def call_defs drv_openVirtualPort_def drv_setCallback_def)

section \<open>A failed open\<close>

text \<open>
  Claim C7. Take any object reached from its construction whose port is closed. If the
  driver's openPort throws (the index having passed the range check), or its
  openVirtualPort throws, the call ends with the exception "Internal RtMidi error",
  returned by the call itself; afterwards the bridge is armed (the flag is set, the
  thread-safe function is live, the driver holds the callback) and the port is still
  closed.
\<close>

theorem failed_open_leaves_armed:
  assumes s: "s = run ops (constructed f)" and h: "handle s = Some h" and closed: "\<not> connected h"
  shows "(\<not> portCount env \<le> Uint32Value x \<and> openPortFails env (Uint32Value x) \<longrightarrow>
            fst (OpenPort env (JsNumber x # rest) s) = Inl (Error, ''Internal RtMidi error'')
            \<and> configured (snd (OpenPort env (JsNumber x # rest) s))
            \<and> handleMessage (snd (OpenPort env (JsNumber x # rest) s)) = TsfnLive
            \<and> map_option usingCallback (handle (snd (OpenPort env (JsNumber x # rest) s))) = Some True
            \<and> map_option connected (handle (snd (OpenPort env (JsNumber x # rest) s))) = Some False)
       \<and> (openVirtualPortFails env nm \<longrightarrow>
            fst (OpenVirtualPort env (JsString nm # rest) s) = Inl (Error, ''Internal RtMidi error'')
            \<and> configured (snd (OpenVirtualPort env (JsString nm # rest) s))
            \<and> handleMessage (snd (OpenVirtualPort env (JsString nm # rest) s)) = TsfnLive
            \<and> map_option usingCallback (handle (snd (OpenVirtualPort env (JsString nm # rest) s))) = Some True
            \<and> map_option connected (handle (snd (OpenVirtualPort env (JsString nm # rest) s))) = Some False)"
proof (intro conjI impI)
  have d: "disciplined s"
    unfolding s by (rule disciplined_reachable)
  { assume a: "\<not> portCount env \<le> Uint32Value x \<and> openPortFails env (Uint32Value x)"
    let ?s' = "snd (OpenPort env (JsNumber x # rest) s)"
    have r: "\<not> portCount env \<le> Uint32Value x" and fails: "openPortFails env (Uint32Value x)"
      using a by simp_all
    note shape = OpenPort_in_range [OF h r, of rest]
    have c: "consistent ?s'"
      using disciplined_OpenPort [OF d, of env "JsNumber x # rest"] by (simp add: disciplined_def)
    show "fst (OpenPort env (JsNumber x # rest) s) = Inl (Error, ''Internal RtMidi error'')"
      using shape fails by simp
    show cfg: "configured ?s'"
      using shape by simp
    show "handleMessage ?s' = TsfnLive"
      using c cfg by (simp add: consistent_def)
    show "map_option usingCallback (handle ?s') = Some True"
      using c cfg by (simp add: consistent_def)
    show "map_option connected (handle ?s') = Some False"
      using OpenPort_connected_after_failure [OF h r fails, of rest] closed by simp }
  { assume fails: "openVirtualPortFails env nm"
    let ?s' = "snd (OpenVirtualPort env (JsString nm # rest) s)"
    note shape = OpenVirtualPort_string [OF h, of env nm rest]
    have c: "consistent ?s'"
      using disciplined_OpenVirtualPort [OF d, of env "JsString nm # rest"] by (simp add: disciplined_def)
    show "fst (OpenVirtualPort env (JsString nm # rest) s) = Inl (Error, ''Internal RtMidi error'')"
      using shape fails by simp
    show cfg: "configured ?s'"
      using shape by simp
    show "handleMessage ?s' = TsfnLive"
      using c cfg by (simp add: consistent_def)
    show "map_option usingCallback (handle ?s') = Some True"
      using c cfg by (simp add: consistent_def)
    show "map_option connected (handle ?s') = Some False"
      using OpenVirtualPort_connected_after_failure [OF h fails, of rest] closed by simp }
qed

theorem failed_open_leaves_armed_witness:
  "constructed 0 = run [] (constructed 0) \<and> handle (constructed 0) = Some new_RtMidiIn
   \<and> \<not> connected new_RtMidiIn
   \<and> \<not> portCount failing_ports \<le> Uint32Value (Finite 0) \<and> openPortFails failing_ports (Uint32Value (Finite 0))
   \<and> OpenPort failing_ports [JsNumber (Finite 0)] (constructed 0)
        = (Inl (Error, ''Internal RtMidi error''), failed_object)
   \<and> configured failed_object \<and> handleMessage failed_object = TsfnLive
   \<and> map_option usingCallback (handle failed_object) = Some True
   \<and> map_option connected (handle failed_object) = Some False
   \<and> openVirtualPortFails failing_ports ''Test''
   \<and> fst (OpenVirtualPort failing_ports [JsString ''Test''] (constructed 0)) = Inl (Error, ''Internal RtMidi error'')"
  using failed_open_leaves_armed [of "constructed 0" "[]" 0 new_RtMidiIn failing_ports "Finite 0" "[]" "''Test''"]
  by (simp add: run_def failed_object_simp constructed_simp new_RtMidiIn_def failing_ports_def
      OpenPort_def OpenVirtualPort_def Let_def setupCallback_def call_defs drv_openPort_def drv_setCallback_def
      Uint32Value_examples word_le_nat_alt del: Uint32Value.simps)

section \<open>The memory of the bridge\<close>

lemma CallbackJs_live:
  assumes "heap_msgs w p = Some m" "message m = Some b" "heap_bufs w b = Some bytes"
  shows "CallbackJs env callback (Some p) w
           = w\<lparr>calls := (if env \<and> callback then calls w @ [(deltaTime m, take (messageLength m) bytes)]
                          else calls w),
                heap_bufs := (heap_bufs w)(b := None),
                heap_msgs := (heap_msgs w)(p := None),
                freed := freed w @ [b, p]\<rparr>"
  using assms by (simp add: CallbackJs_def call_handler_def delete_buf_def delete_msg_def Let_def)

lemma bridge_inv_armed: "bridge_inv armed_bridge"
  by (simp add: bridge_inv_def armed_bridge_def)

lemma in_order_armed: "in_order armed_bridge []"
  by (simp add: in_order_def armed_bridge_def)

lemma Callback_open:
  "\<not> tsfn_closing w \<Longrightarrow>
   Callback dt msg w
     = w\<lparr>heap_msgs := (heap_msgs w)(next_addr w \<mapsto> \<lparr>message = Some (Suc (next_addr w)),
             messageLength = length msg, deltaTime = dt\<rparr>),
          heap_bufs := (heap_bufs w)(Suc (next_addr w) \<mapsto> msg),
          next_addr := Suc (Suc (next_addr w)),
          tsfn_queue := tsfn_queue w @ [next_addr w]\<rparr>"
  by (simp add: Callback_def NonBlockingCall_def Let_def)

lemma queued_below: "bridge_inv w \<Longrightarrow> p \<in> set (tsfn_queue w) \<Longrightarrow> Suc p < next_addr w"
  by (simp add: bridge_inv_def list_all_iff queued_ok_def)

lemma bridge_inv_Callback:
  assumes inv: "bridge_inv w" and live: "\<not> tsfn_closing w"
  shows "bridge_inv (Callback dt msg w)"
proof -
  have below: "\<And>p. p \<in> set (tsfn_queue w) \<Longrightarrow> Suc p < next_addr w"
    using inv by (rule queued_below)
  have fresh: "next_addr w \<notin> set (tsfn_queue w)"
    using below by fastforce
  have freed_below: "\<And>a. a \<in> set (freed w) \<Longrightarrow> a < next_addr w"
    using inv by (simp add: bridge_inv_def list_all_iff)
  have old: "queued_ok (Callback dt msg w) p" if "p \<in> set (tsfn_queue w)" for p
  proof -
    have "queued_ok w p" using inv that by (simp add: bridge_inv_def list_all_iff)
    moreover have "p \<noteq> next_addr w" using that fresh by auto
    moreover have "Suc p < next_addr w" using below that by simp
    ultimately show ?thesis
      by (simp add: Callback_open [OF live] queued_ok_def split: option.splits)
  qed
  have new: "queued_ok (Callback dt msg w) (next_addr w)"
    using inv freed_below [of "next_addr w"] freed_below [of "Suc (next_addr w)"]
    by (auto simp: Callback_open [OF live] queued_ok_def bridge_inv_def)
  show ?thesis
    unfolding bridge_inv_def
  proof (intro conjI)
    show "\<not> fault (Callback dt msg w)" using inv by (simp add: Callback_open [OF live] bridge_inv_def)
    show "even (next_addr (Callback dt msg w))" using inv by (simp add: Callback_open [OF live] bridge_inv_def)
    show "distinct (tsfn_queue (Callback dt msg w))"
      using inv fresh by (simp add: Callback_open [OF live] bridge_inv_def)
    show "list_all (queued_ok (Callback dt msg w)) (tsfn_queue (Callback dt msg w))"
      using old new by (simp add: list_all_iff Callback_open [OF live, of dt msg, THEN arg_cong, of tsfn_queue])
    show "distinct (freed (Callback dt msg w))"
      using inv by (simp add: Callback_open [OF live] bridge_inv_def)
    show "list_all (\<lambda>a. a < next_addr (Callback dt msg w)) (freed (Callback dt msg w))"
      using freed_below by (auto simp: Callback_open [OF live] list_all_iff less_Suc_eq)
    show "dom (heap_msgs (Callback dt msg w)) = set (tsfn_queue (Callback dt msg w))"
      using inv by (simp add: Callback_open [OF live] bridge_inv_def)
    show "dom (heap_bufs (Callback dt msg w)) = Suc ` set (tsfn_queue (Callback dt msg w))"
      using inv by (simp add: Callback_open [OF live] bridge_inv_def)
    have "set (freed w) \<union> set (tsfn_queue w) \<union> Suc ` set (tsfn_queue w) = {..<next_addr w}"
      using inv by (simp add: bridge_inv_def)
    then show "set (freed (Callback dt msg w)) \<union> set (tsfn_queue (Callback dt msg w))
            \<union> Suc ` set (tsfn_queue (Callback dt msg w)) = {..<next_addr (Callback dt msg w)}"
      by (auto simp: Callback_open [OF live] lessThan_Suc)
  qed
qed

lemma envelope_at_Callback:
  assumes inv: "bridge_inv w" and live: "\<not> tsfn_closing w" and p: "p \<in> set (tsfn_queue w)"
  shows "envelope_at (Callback dt msg w) p = envelope_at w p"
proof -
  have "Suc p < next_addr w" using inv p by (rule queued_below)
  moreover have "queued_ok w p" using inv p by (simp add: bridge_inv_def list_all_iff)
  ultimately show ?thesis
    by (auto simp: Callback_open [OF live] envelope_at_def queued_ok_def split: option.splits)
qed

lemma envelope_at_new:
  "\<not> tsfn_closing w \<Longrightarrow> envelope_at (Callback dt msg w) (next_addr w) = Some (dt, msg)"
  by (simp add: Callback_open envelope_at_def)

lemma in_order_Callback:
  assumes inv: "bridge_inv w" and live: "\<not> tsfn_closing w" and ord: "in_order w ds"
  shows "in_order (Callback dt msg w) (ds @ [(dt, msg)])"
proof -
  have old: "map (envelope_at (Callback dt msg w)) (tsfn_queue w) = map (envelope_at w) (tsfn_queue w)"
    by (rule map_cong [OF refl]) (rule envelope_at_Callback [OF inv live])
  have q: "tsfn_queue (Callback dt msg w) = tsfn_queue w @ [next_addr w]"
    and c: "calls (Callback dt msg w) = calls w"
    by (simp_all add: Callback_open [OF live])
  have "map Some (calls w) @ map (envelope_at (Callback dt msg w)) (tsfn_queue w @ [next_addr w])
          = (map Some (calls w) @ map (envelope_at w) (tsfn_queue w)) @ [Some (dt, msg)]"
    by (simp add: old envelope_at_new [OF live])
  also have "\<dots> = map Some (ds @ [(dt, msg)])"
    using ord by (simp add: in_order_def)
  finally show ?thesis
    by (simp only: in_order_def q c)
qed


lemma dispatch_empty: "tsfn_queue w = [] \<Longrightarrow> dispatch w = w"
  by (simp add: dispatch_def)

lemma dispatch_cons:
  assumes q: "tsfn_queue w = p # q"
    and m: "heap_msgs w p = Some m" "message m = Some b" "heap_bufs w b = Some bytes"
  shows "dispatch w
           = w\<lparr>tsfn_queue := q,
                calls := (if tsfn_closing w then calls w
                          else calls w @ [(deltaTime m, take (messageLength m) bytes)]),
                heap_bufs := (heap_bufs w)(b := None),
                heap_msgs := (heap_msgs w)(p := None),
                freed := freed w @ [b, p]\<rparr>"
proof -
  have "dispatch w = CallbackJs (\<not> tsfn_closing w) (\<not> tsfn_closing w) (Some p) (w\<lparr>tsfn_queue := q\<rparr>)"
    by (simp add: dispatch_def q)
  also have "\<dots> = (w\<lparr>tsfn_queue := q\<rparr>)
           \<lparr>calls := (if \<not> tsfn_closing w \<and> \<not> tsfn_closing w
                        then calls (w\<lparr>tsfn_queue := q\<rparr>) @ [(deltaTime m, take (messageLength m) bytes)]
                        else calls (w\<lparr>tsfn_queue := q\<rparr>)),
                heap_bufs := (heap_bufs (w\<lparr>tsfn_queue := q\<rparr>))(b := None),
                heap_msgs := (heap_msgs (w\<lparr>tsfn_queue := q\<rparr>))(p := None),
                freed := freed (w\<lparr>tsfn_queue := q\<rparr>) @ [b, p]\<rparr>"
    by (rule CallbackJs_live) (simp_all add: m)
  finally show ?thesis by simp
qed

lemma queued_head:
  assumes inv: "bridge_inv w" and q: "tsfn_queue w = p # q"
  obtains m bytes where "heap_msgs w p = Some m" "message m = Some (Suc p)" "heap_bufs w (Suc p) = Some bytes"
    "envelope_at w p = Some (deltaTime m, take (messageLength m) bytes)"
proof -
  have "queued_ok w p" using inv q by (simp add: bridge_inv_def)
  then obtain m bytes where "heap_msgs w p = Some m" "message m = Some (Suc p)" "heap_bufs w (Suc p) = Some bytes"
    by (auto simp: queued_ok_def split: option.splits)
  moreover from this have "envelope_at w p = Some (deltaTime m, take (messageLength m) bytes)"
    by (simp add: envelope_at_def)
  ultimately show thesis by (rule that)
qed

lemma bridge_inv_dispatch:
  assumes inv: "bridge_inv w"
  shows "bridge_inv (dispatch w)"
proof (cases "tsfn_queue w")
  case Nil
  then show ?thesis using inv by (simp add: dispatch_empty)
next
  case (Cons p q)
  from inv Cons obtain m bytes where
    m: "heap_msgs w p = Some m" "message m = Some (Suc p)" "heap_bufs w (Suc p) = Some bytes"
    by (rule queued_head)
  note d = dispatch_cons [OF Cons m]
  have head: "queued_ok w p" and tail: "\<And>r. r \<in> set q \<Longrightarrow> queued_ok w r"
    and nq: "p \<notin> set q" and dq: "distinct q"
    using inv Cons by (simp_all add: bridge_inv_def list_all_iff)
  have tail': "queued_ok (dispatch w) r" if "r \<in> set q" for r
  proof -
    have "queued_ok w r" using that by (rule tail)
    moreover have "r \<noteq> p" using that nq by auto
    moreover have "even p" using head by (simp add: queued_ok_def)
    ultimately show ?thesis
      by (auto simp: d queued_ok_def split: option.splits)
  qed
  show ?thesis
    unfolding bridge_inv_def
  proof (intro conjI)
    show "\<not> fault (dispatch w)" using inv by (simp add: d bridge_inv_def)
    show "even (next_addr (dispatch w))" using inv by (simp add: d bridge_inv_def)
    show "distinct (tsfn_queue (dispatch w))" using dq by (simp add: d)
    show "list_all (queued_ok (dispatch w)) (tsfn_queue (dispatch w))"
      using tail' by (simp add: list_all_iff d [THEN arg_cong, of tsfn_queue])
    show "distinct (freed (dispatch w))"
      using inv head by (simp add: d bridge_inv_def queued_ok_def)
    show "list_all (\<lambda>a. a < next_addr (dispatch w)) (freed (dispatch w))"
      using inv head by (simp add: d bridge_inv_def queued_ok_def)
    show "dom (heap_msgs (dispatch w)) = set (tsfn_queue (dispatch w))"
      using inv nq by (auto simp: d bridge_inv_def Cons)
    show "dom (heap_bufs (dispatch w)) = Suc ` set (tsfn_queue (dispatch w))"
      using inv nq by (auto simp: d bridge_inv_def Cons)
    have "set (freed w) \<union> set (tsfn_queue w) \<union> Suc ` set (tsfn_queue w) = {..<next_addr w}"
      using inv by (simp add: bridge_inv_def)
    then show "set (freed (dispatch w)) \<union> set (tsfn_queue (dispatch w))
            \<union> Suc ` set (tsfn_queue (dispatch w)) = {..<next_addr (dispatch w)}"
      by (auto simp: d Cons)
  qed
qed

lemma envelope_at_dispatch:
  assumes inv: "bridge_inv w" and q: "tsfn_queue w = p # q" and r: "r \<in> set q"
  shows "envelope_at (dispatch w) r = envelope_at w r"
proof -
  from inv q obtain m bytes where
    m: "heap_msgs w p = Some m" "message m = Some (Suc p)" "heap_bufs w (Suc p) = Some bytes"
    by (rule queued_head)
  have "r \<noteq> p" using inv q r by (auto simp: bridge_inv_def)
  moreover have "queued_ok w r" using inv q r by (simp add: bridge_inv_def list_all_iff)
  ultimately show ?thesis
    by (auto simp: dispatch_cons [OF q m] envelope_at_def queued_ok_def split: option.splits)
qed

lemma in_order_dispatch:
  assumes inv: "bridge_inv w" and live: "\<not> tsfn_closing w" and ord: "in_order w ds"
  shows "in_order (dispatch w) ds"
proof (cases "tsfn_queue w")
  case Nil
  then show ?thesis using ord by (simp add: dispatch_empty)
next
  case (Cons p q)
  from inv Cons obtain m bytes where
    m: "heap_msgs w p = Some m" "message m = Some (Suc p)" "heap_bufs w (Suc p) = Some bytes"
    and e: "envelope_at w p = Some (deltaTime m, take (messageLength m) bytes)"
    by (rule queued_head)
  note d = dispatch_cons [OF Cons m]
  have rest: "map (envelope_at (dispatch w)) q = map (envelope_at w) q"
    by (rule map_cong [OF refl]) (rule envelope_at_dispatch [OF inv Cons])
  have "map Some (calls (dispatch w)) @ map (envelope_at (dispatch w)) (tsfn_queue (dispatch w))
          = map Some (calls w) @ map (envelope_at w) (tsfn_queue w)"
    using live by (simp add: d [THEN arg_cong, of calls] d [THEN arg_cong, of tsfn_queue] rest Cons e)
  then show ?thesis
    using ord by (simp add: in_order_def)
qed

lemma calls_dispatch_closing: "bridge_inv w \<Longrightarrow> tsfn_closing w \<Longrightarrow> calls (dispatch w) = calls w"
proof (cases "tsfn_queue w")
  case Nil
  then show ?thesis by (simp add: dispatch_empty)
next
  case (Cons p q)
  assume inv: "bridge_inv w" and closing: "tsfn_closing w"
  from inv Cons obtain m bytes where
    m: "heap_msgs w p = Some m" "message m = Some (Suc p)" "heap_bufs w (Suc p) = Some bytes"
    by (rule queued_head)
  show ?thesis using closing by (simp add: dispatch_cons [OF Cons m])
qed

lemma closing_dispatch: "bridge_inv w \<Longrightarrow> tsfn_closing (dispatch w) = tsfn_closing w"
proof (cases "tsfn_queue w")
  case Nil
  then show ?thesis by (simp add: dispatch_empty)
next
  case (Cons p q)
  assume inv: "bridge_inv w"
  from inv Cons obtain m bytes where
    m: "heap_msgs w p = Some m" "message m = Some (Suc p)" "heap_bufs w (Suc p) = Some bytes"
    by (rule queued_head)
  show ?thesis by (simp add: dispatch_cons [OF Cons m])
qed

lemma queue_dispatch: "bridge_inv w \<Longrightarrow> tsfn_queue (dispatch w) = tl (tsfn_queue w)"
proof (cases "tsfn_queue w")
  case Nil
  then show ?thesis by (simp add: dispatch_empty)
next
  case (Cons p q)
  assume inv: "bridge_inv w"
  from inv Cons obtain m bytes where
    m: "heap_msgs w p = Some m" "message m = Some (Suc p)" "heap_bufs w (Suc p) = Some bytes"
    by (rule queued_head)
  show ?thesis by (simp add: dispatch_cons [OF Cons m] Cons)
qed


lemma next_addr_dispatch: "bridge_inv w \<Longrightarrow> next_addr (dispatch w) = next_addr w"
proof (cases "tsfn_queue w")
  case Nil
  then show ?thesis by (simp add: dispatch_empty)
next
  case (Cons p q)
  assume inv: "bridge_inv w"
  from inv Cons obtain m bytes where
    m: "heap_msgs w p = Some m" "message m = Some (Suc p)" "heap_bufs w (Suc p) = Some bytes"
    by (rule queued_head)
  show ?thesis by (simp add: dispatch_cons [OF Cons m])
qed

lemma deliveries_append: "deliveries (xs @ ys) = deliveries xs @ deliveries ys"
  by (induction xs rule: deliveries.induct) simp_all

lemma closing_Callback: "tsfn_closing (Callback dt msg w) = tsfn_closing w"
  by (simp add: Callback_def NonBlockingCall_def Let_def)

lemma run_bridge_keeps:
  "bridge_inv w \<Longrightarrow> \<not> tsfn_closing w \<Longrightarrow> in_order w ds \<Longrightarrow>
   bridge_inv (run_bridge acts w) \<and> \<not> tsfn_closing (run_bridge acts w)
   \<and> in_order (run_bridge acts w) (ds @ deliveries acts)"
proof (induction acts arbitrary: w ds)
  case Nil
  then show ?case by (simp add: run_bridge_def)
next
  case (Cons a acts)
  show ?case
  proof (cases a)
    case (Deliver dt msg)
    have "bridge_inv (Callback dt msg w)" "\<not> tsfn_closing (Callback dt msg w)"
      "in_order (Callback dt msg w) (ds @ [(dt, msg)])"
      using Cons.prems by (simp_all add: bridge_inv_Callback closing_Callback in_order_Callback)
    from Cons.IH [OF this] show ?thesis
      by (simp add: run_bridge_def Deliver)
  next
    case Dispatch
    have "bridge_inv (dispatch w)" "\<not> tsfn_closing (dispatch w)" "in_order (dispatch w) ds"
      using Cons.prems by (simp_all add: bridge_inv_dispatch closing_dispatch in_order_dispatch)
    from Cons.IH [OF this] show ?thesis
      by (simp add: run_bridge_def Dispatch)
  qed
qed

lemma run_bridge_armed:
  "bridge_inv (run_bridge acts armed_bridge) \<and> \<not> tsfn_closing (run_bridge acts armed_bridge)
   \<and> in_order (run_bridge acts armed_bridge) (deliveries acts)"
  using run_bridge_keeps [OF bridge_inv_armed _ in_order_armed, of acts]
  by (simp add: armed_bridge_def)

lemma dispatch_all:
  "length (tsfn_queue w) = n \<Longrightarrow> bridge_inv w \<Longrightarrow>
   bridge_inv ((dispatch ^^ n) w) \<and> tsfn_queue ((dispatch ^^ n) w) = []
   \<and> next_addr ((dispatch ^^ n) w) = next_addr w
   \<and> (if tsfn_closing w then calls ((dispatch ^^ n) w) = calls w
       else \<forall>ds. in_order w ds \<longrightarrow> in_order ((dispatch ^^ n) w) ds)"
proof (induction n arbitrary: w)
  case 0
  then show ?case by simp
next
  case (Suc n)
  have len: "length (tsfn_queue (dispatch w)) = n"
    using Suc.prems by (simp add: queue_dispatch)
  have inv: "bridge_inv (dispatch w)"
    using Suc.prems by (simp add: bridge_inv_dispatch)
  note IH = Suc.IH [OF len inv]
  have un: "(dispatch ^^ Suc n) w = (dispatch ^^ n) (dispatch w)"
    by (simp add: funpow_swap1)
  show ?case
    unfolding un using IH Suc.prems(2)
    by (auto simp: closing_dispatch calls_dispatch_closing in_order_dispatch next_addr_dispatch)
qed

lemma drain_live:
  assumes "bridge_inv w" "\<not> tsfn_closing w" "in_order w ds"
  shows "bridge_inv (drain w) \<and> tsfn_queue (drain w) = [] \<and> calls (drain w) = ds"
proof -
  from dispatch_all [OF refl assms(1)] assms(2,3)
  have inv: "bridge_inv (drain w)" and q: "tsfn_queue (drain w) = []" and ord: "in_order (drain w) ds"
    by (simp_all add: drain_def)
  from ord q have "map Some (calls (drain w)) = map Some ds"
    by (simp add: in_order_def)
  then have "calls (drain w) = ds"
    by (simp add: inj_map_eq_map)
  with inv q show ?thesis by simp
qed

lemma drain_closing:
  assumes "bridge_inv w" "tsfn_closing w"
  shows "bridge_inv (drain w) \<and> tsfn_queue (drain w) = [] \<and> calls (drain w) = calls w
         \<and> next_addr (drain w) = next_addr w"
  using dispatch_all [OF refl assms(1)] assms(2) by (simp add: drain_def)

lemma bridge_inv_Abort: "bridge_inv w \<Longrightarrow> bridge_inv (Abort w)"
proof -
  have "queued_ok (Abort w) = queued_ok w"
    by (rule ext) (simp add: queued_ok_def Abort_def split: option.splits)
  moreover assume "bridge_inv w"
  ultimately show ?thesis
    by (simp add: bridge_inv_def) (simp add: Abort_def)
qed

lemma all_freed:
  assumes "bridge_inv w" "tsfn_queue w = []"
  shows "\<not> fault w \<and> heap_msgs w = Map.empty \<and> heap_bufs w = Map.empty
         \<and> distinct (freed w) \<and> set (freed w) = {..<next_addr w}"
  using assms by (simp add: bridge_inv_def)


section \<open>Schedules with an abort\<close>

lemma calls_closing_Callback: "calls (Callback dt msg w) = calls w"
  by (simp add: Callback_def NonBlockingCall_def Let_def)

lemma calls_closing_dispatch: "tsfn_closing w \<Longrightarrow> calls (dispatch w) = calls w"
  by (simp add: dispatch_def CallbackJs_def delete_buf_def delete_msg_def Let_def
      split: list.splits option.splits)

lemma closing_kept_dispatch: "tsfn_closing (dispatch w) = tsfn_closing w"
  by (simp add: dispatch_def CallbackJs_def call_handler_def delete_buf_def delete_msg_def Let_def
      split: list.splits option.splits)

lemma closing_act: "tsfn_closing w \<Longrightarrow> calls (act w a) = calls w \<and> tsfn_closing (act w a)"
  by (cases a) (simp_all add: calls_closing_Callback calls_closing_dispatch closing_kept_dispatch closing_Callback)

lemma closing_take_turn: "tsfn_closing w \<Longrightarrow> calls (take_turn w t) = calls w \<and> tsfn_closing (take_turn w t)"
  by (cases t) (simp_all add: closing_act Abort_def)

lemma closing_run_turns: "tsfn_closing w \<Longrightarrow> calls (run_turns ts w) = calls w \<and> tsfn_closing (run_turns ts w)"
  unfolding run_turns_def
  by (induction ts arbitrary: w) (simp_all add: closing_take_turn)

lemma calls_run_turns: "calls (run_turns ts w) = calls (run_bridge (while_armed ts) w)"
proof (induction ts arbitrary: w)
  case Nil
  show ?case by (simp add: run_turns_def run_bridge_def)
next
  case (Cons t ts)
  show ?case
  proof (cases t)
    case (Step a)
    then show ?thesis using Cons [of "act w a"] by (simp add: run_turns_def run_bridge_def)
  next
    case Disarm
    have "calls (run_turns ts (Abort w)) = calls (Abort w)"
      using closing_run_turns [of "Abort w" ts] by (simp add: Abort_def)
    then show ?thesis by (simp add: Disarm run_turns_def run_bridge_def Abort_def)
  qed
qed

lemma run_turns_armed: "Disarm \<notin> set ts \<Longrightarrow> run_turns ts w = run_bridge (while_armed ts) w"
proof (induction ts arbitrary: w)
  case Nil
  show ?case by (simp add: run_turns_def run_bridge_def)
next
  case (Cons t ts)
  then show ?case by (cases t) (simp_all add: run_turns_def run_bridge_def)
qed

lemma run_turns_disarmed: "Disarm \<in> set ts \<Longrightarrow> tsfn_closing (run_turns ts w)"
proof (induction ts arbitrary: w)
  case Nil
  then show ?case by simp
next
  case (Cons t ts)
  show ?case
  proof (cases t)
    case (Step a)
    then show ?thesis using Cons by (simp add: run_turns_def)
  next
    case Disarm
    then show ?thesis using closing_run_turns [of "Abort w" ts] by (simp add: run_turns_def Abort_def)
  qed
qed

lemma calls_funpow_closing: "tsfn_closing w \<Longrightarrow> calls ((dispatch ^^ n) w) = calls w \<and> tsfn_closing ((dispatch ^^ n) w)"
  by (induction n) (simp_all add: calls_closing_dispatch closing_kept_dispatch)

lemma calls_drain_closing: "tsfn_closing w \<Longrightarrow> calls (drain w) = calls w"
  by (simp add: drain_def calls_funpow_closing)


lemma bridge_inv_safe: "bridge_inv w \<Longrightarrow> bridge_safe w"
  by (simp add: bridge_inv_def bridge_safe_def)

lemma Callback_closing:
  "tsfn_closing w \<Longrightarrow>
   Callback dt msg w
     = w\<lparr>heap_msgs := (heap_msgs w)(next_addr w \<mapsto> \<lparr>message = Some (Suc (next_addr w)),
             messageLength = length msg, deltaTime = dt\<rparr>),
          heap_bufs := (heap_bufs w)(Suc (next_addr w) \<mapsto> msg),
          next_addr := Suc (Suc (next_addr w))\<rparr>"
  by (simp add: Callback_def NonBlockingCall_def Let_def)

lemma bridge_safe_Callback:
  assumes safe: "bridge_safe w"
  shows "bridge_safe (Callback dt msg w)"
proof -
  have below: "\<And>p. p \<in> set (tsfn_queue w) \<Longrightarrow> Suc p < next_addr w"
    using safe by (simp add: bridge_safe_def list_all_iff queued_ok_def)
  have fresh: "next_addr w \<notin> set (tsfn_queue w)"
    using below by fastforce
  have freed_below: "\<And>a. a \<in> set (freed w) \<Longrightarrow> a < next_addr w"
    using safe by (simp add: bridge_safe_def list_all_iff)
  have old: "queued_ok (Callback dt msg w) p" if "p \<in> set (tsfn_queue w)" for p
  proof -
    have "queued_ok w p" using safe that by (simp add: bridge_safe_def list_all_iff)
    moreover have "p \<noteq> next_addr w" using that fresh by auto
    moreover have "Suc p < next_addr w" using below that by simp
    ultimately show ?thesis
      by (cases "tsfn_closing w")
         (simp_all add: Callback_closing Callback_open queued_ok_def split: option.splits)
  qed
  show ?thesis
  proof (cases "tsfn_closing w")
    case True
    note c = Callback_closing [OF True, of dt msg]
    show ?thesis
      unfolding bridge_safe_def
    proof (intro conjI)
      show "\<not> fault (Callback dt msg w)" using safe by (simp add: c bridge_safe_def)
      show "even (next_addr (Callback dt msg w))" using safe by (simp add: c bridge_safe_def)
      show "distinct (tsfn_queue (Callback dt msg w))" using safe by (simp add: c bridge_safe_def)
      show "list_all (queued_ok (Callback dt msg w)) (tsfn_queue (Callback dt msg w))"
        using old by (simp add: list_all_iff c [THEN arg_cong, of tsfn_queue])
      show "distinct (freed (Callback dt msg w))" using safe by (simp add: c bridge_safe_def)
      show "list_all (\<lambda>a. a < next_addr (Callback dt msg w)) (freed (Callback dt msg w))"
        using freed_below by (auto simp: c list_all_iff less_Suc_eq)
    qed
  next
    case False
    note c = Callback_open [OF False, of dt msg]
    have new: "queued_ok (Callback dt msg w) (next_addr w)"
      using safe freed_below [of "next_addr w"] freed_below [of "Suc (next_addr w)"]
      by (auto simp: c queued_ok_def bridge_safe_def)
    show ?thesis
      unfolding bridge_safe_def
    proof (intro conjI)
      show "\<not> fault (Callback dt msg w)" using safe by (simp add: c bridge_safe_def)
      show "even (next_addr (Callback dt msg w))" using safe by (simp add: c bridge_safe_def)
      show "distinct (tsfn_queue (Callback dt msg w))" using safe fresh by (simp add: c bridge_safe_def)
      show "list_all (queued_ok (Callback dt msg w)) (tsfn_queue (Callback dt msg w))"
        using old new by (simp add: list_all_iff c [THEN arg_cong, of tsfn_queue])
      show "distinct (freed (Callback dt msg w))" using safe by (simp add: c bridge_safe_def)
      show "list_all (\<lambda>a. a < next_addr (Callback dt msg w)) (freed (Callback dt msg w))"
        using freed_below by (auto simp: c list_all_iff less_Suc_eq)
    qed
  qed
qed

lemma bridge_safe_dispatch:
  assumes safe: "bridge_safe w"
  shows "bridge_safe (dispatch w)"
proof (cases "tsfn_queue w")
  case Nil
  then show ?thesis using safe by (simp add: dispatch_empty)
next
  case (Cons p q)
  have head: "queued_ok w p" and tail: "\<And>r. r \<in> set q \<Longrightarrow> queued_ok w r"
    and nq: "p \<notin> set q" and dq: "distinct q"
    using safe Cons by (simp_all add: bridge_safe_def list_all_iff)
  from head obtain m bytes where
    m: "heap_msgs w p = Some m" "message m = Some (Suc p)" "heap_bufs w (Suc p) = Some bytes"
    by (auto simp: queued_ok_def split: option.splits)
  note d = dispatch_cons [OF Cons m]
  have tail': "queued_ok (dispatch w) r" if "r \<in> set q" for r
  proof -
    have "queued_ok w r" using that by (rule tail)
    moreover have "r \<noteq> p" using that nq by auto
    moreover have "even p" using head by (simp add: queued_ok_def)
    ultimately show ?thesis
      by (auto simp: d queued_ok_def split: option.splits)
  qed
  show ?thesis
    unfolding bridge_safe_def
  proof (intro conjI)
    show "\<not> fault (dispatch w)" using safe by (simp add: d bridge_safe_def)
    show "even (next_addr (dispatch w))" using safe by (simp add: d bridge_safe_def)
    show "distinct (tsfn_queue (dispatch w))" using dq by (simp add: d)
    show "list_all (queued_ok (dispatch w)) (tsfn_queue (dispatch w))"
      using tail' by (simp add: list_all_iff d [THEN arg_cong, of tsfn_queue])
    show "distinct (freed (dispatch w))"
      using safe head by (simp add: d bridge_safe_def queued_ok_def)
    show "list_all (\<lambda>a. a < next_addr (dispatch w)) (freed (dispatch w))"
      using safe head by (simp add: d bridge_safe_def queued_ok_def)
  qed
qed

lemma bridge_safe_Abort: "bridge_safe w \<Longrightarrow> bridge_safe (Abort w)"
proof -
  have "queued_ok (Abort w) = queued_ok w"
    by (rule ext) (simp add: queued_ok_def Abort_def split: option.splits)
  moreover assume "bridge_safe w"
  ultimately show ?thesis
    by (simp add: bridge_safe_def) (simp add: Abort_def)
qed

lemma bridge_safe_take_turn: "bridge_safe w \<Longrightarrow> bridge_safe (take_turn w t)"
proof (cases t)
  case (Step a)
  assume "bridge_safe w"
  then show ?thesis by (cases a) (simp_all add: Step bridge_safe_Callback bridge_safe_dispatch)
next
  case Disarm
  assume "bridge_safe w"
  then show ?thesis by (simp add: Disarm bridge_safe_Abort)
qed

lemma bridge_safe_run_turns: "bridge_safe w \<Longrightarrow> bridge_safe (run_turns ts w)"
  unfolding run_turns_def
  by (induction ts arbitrary: w) (simp_all add: bridge_safe_take_turn)

lemma bridge_safe_funpow: "bridge_safe w \<Longrightarrow> bridge_safe ((dispatch ^^ n) w)"
  by (induction n) (simp_all add: bridge_safe_dispatch)

lemma bridge_safe_drain: "bridge_safe w \<Longrightarrow> bridge_safe (drain w)"
  by (simp add: drain_def bridge_safe_funpow)

lemma in_order_take: "in_order w ds \<Longrightarrow> calls w = take (length (calls w)) ds"
proof -
  assume "in_order w ds"
  then have "map Some (calls w) @ map (envelope_at w) (tsfn_queue w) = map Some ds"
    by (simp add: in_order_def)
  then have "take (length (calls w)) (map Some ds) = map Some (calls w)"
    by (metis append_eq_conv_conj length_map)
  then have "map Some (take (length (calls w)) ds) = map Some (calls w)"
    by (simp add: take_map)
  then show ?thesis
    by (simp add: inj_map_eq_map)
qed

section \<open>Delivery while armed\<close>

text \<open>
  Claim C1, as stated: for every message received while the bridge is armed the handler is
  invoked exactly once. It fails when the bridge is disarmed before the consumer's loop
  reaches the message: the driver delivers the note-on message to an armed bridge, the
  thread-safe function is aborted, the loop then runs until the queue is empty, and the
  handler has not been called with the message that was received while armed.
\<close>

theorem delivered_once_counterexample:
  "\<not> calls (drain (run_turns dropped_schedule armed_bridge)) = deliveries (while_armed dropped_schedule)"
proof -
  have "calls (run_bridge (while_armed dropped_schedule) armed_bridge) = []"
    by (simp add: dropped_schedule_def run_bridge_def armed_bridge_def Callback_def NonBlockingCall_def Let_def)
  moreover have "Disarm \<in> set dropped_schedule"
    by (simp add: dropped_schedule_def)
  ultimately have "calls (drain (run_turns dropped_schedule armed_bridge)) = []"
    using calls_drain_closing [OF run_turns_disarmed, of dropped_schedule armed_bridge]
      calls_run_turns [of dropped_schedule armed_bridge] by simp
  then show ?thesis
    by (simp add: dropped_schedule_def)
qed

text \<open>
  Claim C1, amended: for every message received while the bridge is armed, the handler is
  invoked at most once, in delivery order, with the timestamp and a payload byte-identical
  to the driver's bytes and of their length; exactly once when the consumer's loop
  dispatches the message before the bridge is disarmed, and not at all when the message is
  still queued at that moment. In the model: in any interleaving of deliveries, dispatches
  and aborts, the handler's calls are those of the steps taken before the first abort;
  they are an initial segment of the messages delivered before it, and together with the
  envelopes then queued they are exactly those messages in order; no memory fault occurs;
  with no abort, emptying the queue gives every message exactly once; after an abort,
  emptying the queue adds no call.
\<close>

theorem delivered_in_order_until_disarmed:
  "calls (run_turns ts armed_bridge) = calls (run_bridge (while_armed ts) armed_bridge)
   \<and> in_order (run_bridge (while_armed ts) armed_bridge) (deliveries (while_armed ts))
   \<and> calls (run_turns ts armed_bridge)
       = take (length (calls (run_turns ts armed_bridge))) (deliveries (while_armed ts))
   \<and> \<not> fault (run_turns ts armed_bridge)
   \<and> \<not> fault (drain (run_turns ts armed_bridge))
   \<and> (Disarm \<notin> set ts \<longrightarrow> calls (drain (run_turns ts armed_bridge)) = deliveries (while_armed ts))
   \<and> (Disarm \<in> set ts \<longrightarrow> calls (drain (run_turns ts armed_bridge)) = calls (run_turns ts armed_bridge))"
proof (intro conjI impI)
  let ?pre = "run_bridge (while_armed ts) armed_bridge"
  have pre: "bridge_inv ?pre" "\<not> tsfn_closing ?pre" "in_order ?pre (deliveries (while_armed ts))"
    using run_bridge_armed [of "while_armed ts"] by simp_all
  show c: "calls (run_turns ts armed_bridge) = calls ?pre"
    by (rule calls_run_turns)
  show "in_order ?pre (deliveries (while_armed ts))"
    by (rule pre(3))
  show "calls (run_turns ts armed_bridge)
       = take (length (calls (run_turns ts armed_bridge))) (deliveries (while_armed ts))"
    unfolding c by (rule in_order_take [OF pre(3)])
  have safe: "bridge_safe (run_turns ts armed_bridge)"
    by (rule bridge_safe_run_turns [OF bridge_inv_safe [OF bridge_inv_armed]])
  show "\<not> fault (run_turns ts armed_bridge)"
    using safe by (simp add: bridge_safe_def)
  show "\<not> fault (drain (run_turns ts armed_bridge))"
    using bridge_safe_drain [OF safe] by (simp add: bridge_safe_def)
  show "calls (drain (run_turns ts armed_bridge)) = deliveries (while_armed ts)" if "Disarm \<notin> set ts"
    using drain_live [OF pre] run_turns_armed [OF that, of armed_bridge] by simp
  show "calls (drain (run_turns ts armed_bridge)) = calls (run_turns ts armed_bridge)" if "Disarm \<in> set ts"
    by (rule calls_drain_closing [OF run_turns_disarmed [OF that]])
qed

lemma calls_mixed: "calls (run_bridge (while_armed mixed_schedule) armed_bridge) = [(Finite 0, note_on)]"
  by (simp add: mixed_schedule_def run_bridge_def armed_bridge_def Callback_def NonBlockingCall_def
      dispatch_def CallbackJs_def call_handler_def delete_buf_def delete_msg_def Let_def note_on_def)

theorem delivered_in_order_until_disarmed_witness:
  "Disarm \<in> set mixed_schedule
   \<and> deliveries (while_armed mixed_schedule) = [(Finite 0, note_on), (Finite (1 / 2), [0xF8])]
   \<and> calls (drain (run_turns mixed_schedule armed_bridge)) = [(Finite 0, note_on)]
   \<and> Disarm \<notin> set [Step (Deliver (Finite 0) note_on), Step Dispatch, Step (Deliver (Finite 1) [])]
   \<and> calls (drain (run_turns [Step (Deliver (Finite 0) note_on), Step Dispatch, Step (Deliver (Finite 1) [])]
        armed_bridge)) = [(Finite 0, note_on), (Finite 1, [])]"
  using delivered_in_order_until_disarmed [of mixed_schedule]
    delivered_in_order_until_disarmed [of "[Step (Deliver (Finite 0) note_on), Step Dispatch, Step (Deliver (Finite 1) [])]"]
  by (simp add: calls_mixed) (simp add: mixed_schedule_def)

section \<open>Delivery after the consumer is gone\<close>

lemma calls_demo: "calls (run_bridge demo_schedule armed_bridge) = [(Finite 0, note_on)]"
  by (simp add: demo_schedule_def run_bridge_def armed_bridge_def Callback_def NonBlockingCall_def
      dispatch_def CallbackJs_def call_handler_def delete_buf_def delete_msg_def Let_def note_on_def)

text \<open>
  Claim C6. When \<^verbatim>\<open>CallbackJs\<close> runs on a live envelope with a null environment or a
  null callback, the handler is not called (the list of calls is unchanged), the bytes and
  the envelope are each deleted once (the two addresses are appended to the record of
  deletions and leave the heap), and nothing else changes: there is no fault and no
  exception. For a whole schedule: if the thread-safe function is aborted after any
  interleaving of deliveries and dispatches and what is queued is then handed to
  \<^verbatim>\<open>CallbackJs\<close>, the handler is called for none of it, no fault occurs, the heap ends
  empty, and every address ever allocated has been deleted exactly once.
\<close>

theorem aborted_delivery:
  "(heap_msgs w p = Some m \<and> message m = Some b \<and> heap_bufs w b = Some bytes \<and> \<not> (env \<and> callback) \<longrightarrow>
      CallbackJs env callback (Some p) w
        = w\<lparr>heap_bufs := (heap_bufs w)(b := None), heap_msgs := (heap_msgs w)(p := None),
             freed := freed w @ [b, p]\<rparr>)
   \<and> calls (drain (Abort (run_bridge acts armed_bridge))) = calls (run_bridge acts armed_bridge)
   \<and> \<not> fault (drain (Abort (run_bridge acts armed_bridge)))
   \<and> tsfn_queue (drain (Abort (run_bridge acts armed_bridge))) = []
   \<and> heap_msgs (drain (Abort (run_bridge acts armed_bridge))) = Map.empty
   \<and> heap_bufs (drain (Abort (run_bridge acts armed_bridge))) = Map.empty
   \<and> distinct (freed (drain (Abort (run_bridge acts armed_bridge))))
   \<and> set (freed (drain (Abort (run_bridge acts armed_bridge))))
       = {..<next_addr (run_bridge acts armed_bridge)}"
proof (intro conjI impI)
  let ?w = "run_bridge acts armed_bridge"
  show "CallbackJs env callback (Some p) w
        = w\<lparr>heap_bufs := (heap_bufs w)(b := None), heap_msgs := (heap_msgs w)(p := None),
             freed := freed w @ [b, p]\<rparr>"
    if "heap_msgs w p = Some m \<and> message m = Some b \<and> heap_bufs w b = Some bytes \<and> \<not> (env \<and> callback)"
    using that CallbackJs_live [of w p m b bytes env callback] by auto
  have "bridge_inv (Abort ?w)" "tsfn_closing (Abort ?w)"
    using run_bridge_armed [of acts] by (simp_all add: bridge_inv_Abort) (simp add: Abort_def)
  from drain_closing [OF this]
  have d: "bridge_inv (drain (Abort ?w))" "tsfn_queue (drain (Abort ?w)) = []"
    "calls (drain (Abort ?w)) = calls (Abort ?w)" "next_addr (drain (Abort ?w)) = next_addr (Abort ?w)"
    by simp_all
  note f = all_freed [OF d(1,2)]
  show "calls (drain (Abort ?w)) = calls ?w"
    using d(3) by (simp add: Abort_def)
  show "\<not> fault (drain (Abort ?w))" "tsfn_queue (drain (Abort ?w)) = []"
    "heap_msgs (drain (Abort ?w)) = Map.empty" "heap_bufs (drain (Abort ?w)) = Map.empty"
    "distinct (freed (drain (Abort ?w)))"
    using f d(2) by simp_all
  have "next_addr (drain (Abort ?w)) = next_addr ?w"
    using d(4) by (simp add: Abort_def)
  then show "set (freed (drain (Abort ?w))) = {..<next_addr ?w}"
    using f by simp
qed


theorem aborted_delivery_witness:
  "heap_msgs one_queued 0 = Some \<lparr>message = Some 1, messageLength = 3, deltaTime = Finite 0\<rparr>
   \<and> message \<lparr>message = Some 1, messageLength = 3, deltaTime = Finite 0\<rparr> = Some 1
   \<and> heap_bufs one_queued 1 = Some note_on
   \<and> \<not> (False \<and> False)
   \<and> calls (CallbackJs False False (Some 0) one_queued) = []
   \<and> freed (CallbackJs False False (Some 0) one_queued) = [1, 0]
   \<and> heap_msgs (CallbackJs False False (Some 0) one_queued) 0 = None
   \<and> heap_bufs (CallbackJs False False (Some 0) one_queued) 1 = None
   \<and> calls (drain (Abort (run_bridge demo_schedule armed_bridge))) = [(Finite 0, note_on)]
   \<and> distinct (freed (drain (Abort (run_bridge demo_schedule armed_bridge))))"
  using aborted_delivery [of one_queued 0 "\<lparr>message = Some 1, messageLength = 3, deltaTime = Finite 0\<rparr>"
      1 note_on False False demo_schedule]
  by (simp add: calls_demo) (simp add: one_queued_def Callback_def NonBlockingCall_def armed_bridge_def
      Let_def note_on_def)

end
